theory Spec2Isabelle
  imports Main
begin

section \<open>The scheduling script \<open>mvp_scheduler.py\<close>\<close>

text \<open>
  The script reads intake requests from one CSV file and committed bookings from another,
  books for each request the first preferred slot that is free, writes an invite file for it
  and appends the booking to the bookings file.

  Modelling decisions.
  \<^item> A \<open>datetime\<close> is a naive Python datetime (no UTC offset, which is what the documented
    input format \<open>YYYY-MM-DD HH:MM\<close> gives), represented by its number of microseconds
    since 0001-01-01T00:00:00. Comparison is \<open><\<close> on integers; adding a \<open>timedelta\<close> is
    addition, and raises \<open>OverflowError\<close> when the result leaves the range of the type.
  \<^item> The functions of the standard library that convert between text and datetimes
    (\<open>datetime.fromisoformat\<close>, \<open>datetime.isoformat\<close>, \<open>datetime.strftime\<close>) are
    parameters of the model, collected in a record \<open>dtlib\<close>. A result \<open>None\<close> of
    \<open>fromisoformat\<close> stands for the exception it raises on text it does not accept.
  \<^item> The intake file is only read: it is given as the list of its records, each the list
    of its fields (the result of \<open>csv.reader\<close>); \<open>None\<close> is a file that does not exist.
  \<^item> The bookings file is read and appended to: it is given as its text, and
    \<open>csv.reader\<close> and \<open>csv.writer\<close> are modelled on that text (section CSV text below).
    Both files are opened with \<open>newline=''\<close>, so no character is translated.
  \<^item> The folder \<open>out\<close> exists (line 21 makes it) and holds no folder. Writing an invite
    fails as \<open>Path.write_text\<close> does on a POSIX file system whose names hold at most 255
    bytes: on a path with a NUL character, on a name that is too long, and on a name with
    a \<open>/\<close>, which asks for a folder that is not there. Other failures of the file system
    (rights, space) are left out.
  \<^item> Strings are lists of 8-bit characters, read as code points below 256.
  \<^item> An exception that the script does not catch ends the run. The state carries it in
    the field \<open>raised\<close>, so that the files written before it are still there to look at.
  \<^item> The field \<open>trace\<close> is the history of the two file effects of a booking, in the order
    in which they happen.
\<close>

subsection \<open>Datetimes\<close>

type_synonym datetime = int

definition DATETIME_MAX :: datetime where
  "DATETIME_MAX = 315537897599999999"

definition DURATION_MINUTES :: int where
  "DURATION_MINUTES = 30"

definition timedelta_minutes :: "int \<Rightarrow> int" where
  "timedelta_minutes m = m * 60000000"

datatype error =
    SystemExit | KeyError | AttributeError | TypeError | ValueError | OverflowError
  | OSError | FileNotFoundError | NotADirectoryError | CsvError

definition add_timedelta :: "datetime \<Rightarrow> int \<Rightarrow> error + datetime" where
  "add_timedelta dt delta =
     (if dt + delta < 0 \<or> DATETIME_MAX < dt + delta then Inl OverflowError else Inr (dt + delta))"

record dtlib =
  fromisoformat :: "string \<Rightarrow> datetime option"
  isoformat :: "datetime \<Rightarrow> string"
  strftime :: "datetime \<Rightarrow> string \<Rightarrow> string"

subsection \<open>Strings\<close>

definition isspace :: "char \<Rightarrow> bool" where
  "isspace c =
     (let n = (of_char c :: nat)
      in (9 \<le> n \<and> n \<le> 13) \<or> (28 \<le> n \<and> n \<le> 32) \<or> n = 133 \<or> n = 160)"

definition strip :: "string \<Rightarrow> string" where
  "strip s = rev (dropWhile isspace (rev (dropWhile isspace s)))"

fun str_split :: "char \<Rightarrow> string \<Rightarrow> string list" where
  "str_split sep [] = [[]]"
| "str_split sep (c # cs) =
     (let r = str_split sep cs
      in if c = sep then [] # r else (c # hd r) # tl r)"

definition replace_char :: "char \<Rightarrow> char \<Rightarrow> string \<Rightarrow> string" where
  "replace_char a b s = map (\<lambda>c. if c = a then b else c) s"

subsection \<open>CSV files and \<open>csv.DictReader\<close>\<close>

type_synonym csvfile = "string list list"

type_synonym dictrow = "string \<rightharpoonup> string option"

text \<open>
  \<open>DictReader\<close> takes the first record as the field names, skips empty records, and makes
  of every other record a dictionary from field name to field: a later duplicate of a
  field name wins, a record that is too short gets \<open>None\<close> (the inner \<open>None\<close> here) for
  the names it lacks, and the fields beyond the names are stored under a key that is no
  string.
\<close>

definition mkdict :: "string list \<Rightarrow> string list \<Rightarrow> dictrow" where
  "mkdict fieldnames row =
     map_of (rev (zip fieldnames
       (map Some row @ replicate (length fieldnames - length row) None)))"

definition DictReader :: "csvfile \<Rightarrow> dictrow list" where
  "DictReader f =
     (case f of
        [] \<Rightarrow> []
      | fieldnames # rows \<Rightarrow> map (mkdict fieldnames) (filter (\<lambda>r. r \<noteq> []) rows))"

text \<open>\<open>row[k].strip()\<close> and \<open>row.get(k, '').strip()\<close>.\<close>

definition getitem_strip :: "dictrow \<Rightarrow> string \<Rightarrow> error + string" where
  "getitem_strip row k =
     (case row k of
        None \<Rightarrow> Inl KeyError
      | Some None \<Rightarrow> Inl AttributeError
      | Some (Some s) \<Rightarrow> Inr (strip s))"

definition get_strip :: "dictrow \<Rightarrow> string \<Rightarrow> error + string" where
  "get_strip row k =
     (case row k of
        None \<Rightarrow> Inr (strip [])
      | Some None \<Rightarrow> Inl AttributeError
      | Some (Some s) \<Rightarrow> Inr (strip s))"

subsection \<open>CSV text: \<open>csv.reader\<close> and \<open>csv.writer\<close> in the dialect \<open>excel\<close>\<close>

definition CR :: char where
  "CR = CHR 0x0D"

definition LF :: char where
  "LF = CHR 0x0A"

definition QUOTE :: char where
  "QUOTE = CHR 0x22"

definition COMMA :: char where
  "COMMA = CHR 0x2C"

text \<open>
  The lines that iterating over a text file opened with \<open>newline=''\<close> gives: a line ends
  after \<open>\n\<close>, after \<open>\r\n\<close> or after a \<open>\r\<close> that no \<open>\n\<close> follows, and keeps its
  end; the last line may have none. \<open>cur\<close> is the line read so far.
\<close>

fun file_lines :: "string \<Rightarrow> string \<Rightarrow> string list" where
  "file_lines cur [] = (if cur = [] then [] else [cur])"
| "file_lines cur [c] = [cur @ [c]]"
| "file_lines cur (c # d # cs) =
     (if c = CR \<and> d = LF then (cur @ [c, d]) # file_lines [] cs
      else if c = CR \<or> c = LF then (cur @ [c]) # file_lines [] (d # cs)
      else file_lines (cur @ [c]) (d # cs))"

text \<open>
  The parser of \<open>csv.reader\<close> (CPython 3.11, where a NUL is a character like any other),
  for the dialect \<open>excel\<close>: delimiter comma, quote character \<open>"\<close> doubled inside a quoted
  field, no escape character, not strict. The character \<open>None\<close> is the end of a line
  that the reader feeds to the parser after the characters of every line.
\<close>

datatype parse_state =
    START_RECORD | START_FIELD | IN_FIELD | IN_QUOTED_FIELD | QUOTE_IN_QUOTED_FIELD | EAT_CRNL

record reader =
  rd_state :: parse_state
  rd_field :: string
  rd_fields :: "string list"

definition parse_reset :: reader where
  "parse_reset = \<lparr>rd_state = START_RECORD, rd_field = [], rd_fields = []\<rparr>"

definition parse_save_field :: "reader \<Rightarrow> reader" where
  "parse_save_field r = r\<lparr>rd_fields := rd_fields r @ [rd_field r], rd_field := []\<rparr>"

definition parse_add_char :: "char \<Rightarrow> reader \<Rightarrow> reader" where
  "parse_add_char c r = r\<lparr>rd_field := rd_field r @ [c]\<rparr>"

definition is_newline :: "char option \<Rightarrow> bool" where
  "is_newline c = (c = Some CR \<or> c = Some LF)"

definition after_line_end :: "char option \<Rightarrow> parse_state" where
  "after_line_end c = (if c = None then START_RECORD else EAT_CRNL)"

definition start_field :: "reader \<Rightarrow> char option \<Rightarrow> reader" where
  "start_field r c =
     (if is_newline c \<or> c = None then (parse_save_field r)\<lparr>rd_state := after_line_end c\<rparr>
      else if c = Some QUOTE then r\<lparr>rd_state := IN_QUOTED_FIELD\<rparr>
      else if c = Some COMMA then (parse_save_field r)\<lparr>rd_state := START_FIELD\<rparr>
      else (parse_add_char (the c) r)\<lparr>rd_state := IN_FIELD\<rparr>)"

fun parse_process_char :: "reader \<Rightarrow> char option \<Rightarrow> error + reader" where
  "parse_process_char r c =
     (case rd_state r of
        START_RECORD \<Rightarrow>
          if c = None then Inr r
          else if is_newline c then Inr (r\<lparr>rd_state := EAT_CRNL\<rparr>)
          else Inr (start_field r c)
      | START_FIELD \<Rightarrow> Inr (start_field r c)
      | IN_FIELD \<Rightarrow>
          if is_newline c \<or> c = None
          then Inr ((parse_save_field r)\<lparr>rd_state := after_line_end c\<rparr>)
          else if c = Some COMMA then Inr ((parse_save_field r)\<lparr>rd_state := START_FIELD\<rparr>)
          else Inr (parse_add_char (the c) r)
      | IN_QUOTED_FIELD \<Rightarrow>
          if c = None then Inr r
          else if c = Some QUOTE then Inr (r\<lparr>rd_state := QUOTE_IN_QUOTED_FIELD\<rparr>)
          else Inr (parse_add_char (the c) r)
      | QUOTE_IN_QUOTED_FIELD \<Rightarrow>
          if c = Some QUOTE then Inr ((parse_add_char QUOTE r)\<lparr>rd_state := IN_QUOTED_FIELD\<rparr>)
          else if c = Some COMMA then Inr ((parse_save_field r)\<lparr>rd_state := START_FIELD\<rparr>)
          else if is_newline c \<or> c = None
          then Inr ((parse_save_field r)\<lparr>rd_state := after_line_end c\<rparr>)
          else Inr ((parse_add_char (the c) r)\<lparr>rd_state := IN_FIELD\<rparr>)
      | EAT_CRNL \<Rightarrow>
          if is_newline c then Inr r
          else if c = None then Inr (r\<lparr>rd_state := START_RECORD\<rparr>)
          else Inl CsvError)"

fun feed :: "reader \<Rightarrow> string \<Rightarrow> error + reader" where
  "feed r [] = Inr r"
| "feed r (c # cs) =
     (case parse_process_char r (Some c) of Inl e \<Rightarrow> Inl e | Inr r' \<Rightarrow> feed r' cs)"

definition feed_line :: "reader \<Rightarrow> string \<Rightarrow> error + reader" where
  "feed_line r l =
     (case feed r l of Inl e \<Rightarrow> Inl e | Inr r' \<Rightarrow> parse_process_char r' None)"

text \<open>
  The records of a list of lines. A record is complete when the parser is back at the
  start of a record after a line; at the end of the input, a record that was begun (a
  quoted field left open) is given as it stands.
\<close>

fun read_records :: "reader \<Rightarrow> string list \<Rightarrow> error + string list list" where
  "read_records r [] =
     (if rd_field r \<noteq> [] \<or> rd_state r = IN_QUOTED_FIELD
      then Inr [rd_fields (parse_save_field r)] else Inr [])"
| "read_records r (l # ls) =
     (case feed_line r l of
        Inl e \<Rightarrow> Inl e
      | Inr r' \<Rightarrow>
          if rd_state r' = START_RECORD
          then (case read_records parse_reset ls of
                  Inl e \<Rightarrow> Inl e
                | Inr recs \<Rightarrow> Inr (rd_fields r' # recs))
          else read_records r' ls)"

definition csv_reader :: "string \<Rightarrow> error + string list list" where
  "csv_reader text = read_records parse_reset (file_lines [] text)"

text \<open>
  \<open>writer.writerow\<close>: the fields joined by commas and ended by \<open>\r\n\<close>; a field with a
  comma, a quote or a line end in it is put in quotes, its quotes doubled; a row of one
  empty field is written as two quotes.
\<close>

definition needs_quotes :: "string \<Rightarrow> bool" where
  "needs_quotes f = (\<exists>c \<in> set f. c = COMMA \<or> c = QUOTE \<or> c = CR \<or> c = LF)"

definition csv_field :: "string \<Rightarrow> string" where
  "csv_field f =
     (if needs_quotes f
      then QUOTE # concat (map (\<lambda>c. if c = QUOTE then [c, c] else [c]) f) @ [QUOTE]
      else f)"

fun join_fields :: "string list \<Rightarrow> string" where
  "join_fields [] = []"
| "join_fields [f] = f"
| "join_fields (f # g # fs) = f @ COMMA # join_fields (g # fs)"

definition writerow :: "string list \<Rightarrow> string" where
  "writerow row =
     (if row = [[]] then [QUOTE, QUOTE] else join_fields (map csv_field row)) @ [CR, LF]"

subsection \<open>The state of a run\<close>

datatype message =
    MsgCreateIntake
  | MsgNoPreferredSlots string
  | MsgInvalidDatetime string
  | MsgScheduled string string string
  | MsgNoFreeSlot string
  | MsgSummary nat
  | MsgSummaryLine string string string

datatype event =
    IcsWritten string datetime int
  | BookingAppended datetime datetime

text \<open>
  The fields of an invite that \<open>create_ics\<close> computes from its arguments. The identifier
  and the time stamp of the invite come from \<open>uuid4()\<close> and \<open>utcnow()\<close> and are left out,
  as are the constant lines of the document.
\<close>

record ics =
  ics_dtstart :: string
  ics_dtend :: string
  ics_summary :: string
  ics_organizer :: string
  ics_attendee :: string

record state =
  bookings :: "(datetime \<times> datetime) list"
  scheduled :: "(string \<times> string \<times> string \<times> string) list"
  existing_csv :: "string option"
  out_files :: "(string \<times> ics) list"
  printed :: "message list"
  trace :: "event list"
  raised :: "error option"

definition py_print :: "message \<Rightarrow> state \<Rightarrow> state" where
  "py_print m st = st\<lparr>printed := printed st @ [m]\<rparr>"

definition raise :: "error \<Rightarrow> state \<Rightarrow> state" where
  "raise e st = st\<lparr>raised := Some e\<rparr>"

subsection \<open>The bookings file\<close>

definition parse_field :: "dtlib \<Rightarrow> dictrow \<Rightarrow> string \<Rightarrow> error + datetime" where
  "parse_field L r k =
     (case r k of
        None \<Rightarrow> Inl KeyError
      | Some None \<Rightarrow> Inl TypeError
      | Some (Some s) \<Rightarrow>
          (case fromisoformat L s of None \<Rightarrow> Inl ValueError | Some d \<Rightarrow> Inr d))"

fun read_rows ::
  "dtlib \<Rightarrow> dictrow list \<Rightarrow> (datetime \<times> datetime) list \<Rightarrow> error + (datetime \<times> datetime) list"
where
  "read_rows L [] acc = Inr acc"
| "read_rows L (r # rs) acc =
     (case parse_field L r ''start'' of
        Inl e \<Rightarrow> Inl e
      | Inr start \<Rightarrow>
          (case parse_field L r ''end'' of
             Inl e \<Rightarrow> Inl e
           | Inr stop \<Rightarrow> read_rows L rs (acc @ [(start, stop)])))"

definition read_existing_bookings ::
  "dtlib \<Rightarrow> string option \<Rightarrow> error + (datetime \<times> datetime) list"
where
  "read_existing_bookings L f =
     (case f of
        None \<Rightarrow> Inr []
      | Some text \<Rightarrow>
          (case csv_reader text of
             Inl e \<Rightarrow> Inl e
           | Inr recs \<Rightarrow> read_rows L (DictReader recs) []))"

text \<open>
  The file is opened to append: what is written goes after the last character of the
  text that is there, whatever it is. The header is written only when there was no file.
\<close>

definition append_booking_to_existing :: "dtlib \<Rightarrow> datetime \<Rightarrow> datetime \<Rightarrow> state \<Rightarrow> state" where
  "append_booking_to_existing L start stop st =
     (let exists = (existing_csv st \<noteq> None);
          old = (case existing_csv st of None \<Rightarrow> [] | Some text \<Rightarrow> text);
          header = (if \<not> exists then writerow [''start'', ''end''] else [])
      in st\<lparr>existing_csv := Some (old @ header @ writerow [isoformat L start, isoformat L stop]),
            trace := trace st @ [BookingAppended start stop]\<rparr>)"

subsection \<open>The overlap check\<close>

fun slot_overlaps :: "datetime \<Rightarrow> datetime \<Rightarrow> (datetime \<times> datetime) list \<Rightarrow> bool" where
  "slot_overlaps start stop [] = False"
| "slot_overlaps start stop ((bstart, bend) # rest) =
     (if start < bend \<and> stop > bstart then True else slot_overlaps start stop rest)"

subsection \<open>Writing an invite\<close>

definition OUT_DIR :: string where
  "OUT_DIR = ''out''"

definition NAME_MAX :: nat where
  "NAME_MAX = 255"

text \<open>The number of bytes of a string in UTF-8, its characters being code points below 256.\<close>

definition utf8_length :: "string \<Rightarrow> nat" where
  "utf8_length s = length s + length (filter (\<lambda>c. 128 \<le> (of_char c :: nat)) s)"

text \<open>
  What \<open>Path(out_path).write_text\<close> raises for a path in the folder \<open>out\<close>, given the
  files written there so far. \<open>first\<close> is the first name of the path after the folder: the
  name of the file itself, or of a folder when a \<open>/\<close> follows it, and no such folder
  exists.
\<close>

definition write_text_error :: "(string \<times> ics) list \<Rightarrow> string \<Rightarrow> error option" where
  "write_text_error files out_path =
     (let rel = drop (length OUT_DIR + 1) out_path;
          first = takeWhile (\<lambda>c. c \<noteq> CHR ''/'') rel
      in if CHR 0x00 \<in> set out_path then Some ValueError
         else if NAME_MAX < utf8_length first then Some OSError
         else if CHR ''/'' \<in> set rel
         then (if OUT_DIR @ ''/'' @ first \<in> set (map fst files)
               then Some NotADirectoryError else Some FileNotFoundError)
         else None)"

definition create_ics ::
  "dtlib \<Rightarrow> string \<Rightarrow> datetime \<Rightarrow> int \<Rightarrow> string \<Rightarrow> string \<Rightarrow> string \<Rightarrow> state
     \<Rightarrow> error + state"
where
  "create_ics L summary start_dt duration_minutes organizer_email attendee_email out_path st =
     (let doc = \<lparr>ics_dtstart = strftime L start_dt ''%Y%m%dT%H%M%S'',
                 ics_dtend =
                   strftime L (start_dt + timedelta_minutes duration_minutes) ''%Y%m%dT%H%M%S'',
                 ics_summary = summary,
                 ics_organizer = organizer_email,
                 ics_attendee = attendee_email\<rparr>
      in case write_text_error (out_files st) out_path of
           Some e \<Rightarrow> Inl e
         | None \<Rightarrow>
             Inr (st\<lparr>out_files := (out_path, doc) # out_files st,
                     trace := trace st @ [IcsWritten out_path start_dt duration_minutes]\<rparr>))"

subsection \<open>The run\<close>

text \<open>
  The summary line of an invite; the source has the dash U+2014 where \<open>--\<close> stands here.
\<close>

definition summary_of :: "string \<Rightarrow> string" where
  "summary_of name = ''Initial Telehealth Consultation -- '' @ name"

text \<open>The name of the invite file (the f-string of line 104), and its path.\<close>

definition invite_name :: "dtlib \<Rightarrow> string \<Rightarrow> datetime \<Rightarrow> string" where
  "invite_name L name start_dt =
     ''invite_'' @ replace_char CHR '' '' CHR ''_'' name @ ''_''
       @ strftime L start_dt ''%Y%m%dT%H%M'' @ ''.ics''"

definition filename_of :: "dtlib \<Rightarrow> string \<Rightarrow> datetime \<Rightarrow> string" where
  "filename_of L name start_dt = OUT_DIR @ ''/'' @ invite_name L name start_dt"

text \<open>
  Lines 103 to 110: what the script does once a slot is found free. An exception of
  \<open>create_ics\<close> leaves the lines after it undone.
\<close>

definition book_slot ::
  "dtlib \<Rightarrow> string \<Rightarrow> string \<Rightarrow> datetime \<Rightarrow> datetime \<Rightarrow> state \<Rightarrow> error + state"
where
  "book_slot L name email start_dt end_dt st =
     (let summary = summary_of name;
          filename = filename_of L name start_dt
      in case create_ics L summary start_dt DURATION_MINUTES ''reception@clinic.example''
                email filename st of
           Inl e \<Rightarrow> Inl e
         | Inr st1 \<Rightarrow>
             (let st2 = append_booking_to_existing L start_dt end_dt st1;
                  st3 = st2\<lparr>bookings := bookings st2 @ [(start_dt, end_dt)]\<rparr>;
                  st4 = st3\<lparr>scheduled := scheduled st3
                          @ [(name, email, strftime L start_dt ''%Y-%m-%d %H:%M'', filename)]\<rparr>
              in Inr (py_print (MsgScheduled name (isoformat L start_dt) filename) st4)))"

text \<open>
  Lines 94 to 111: the loop over the preferred slots of one request. The result is the
  flag \<open>booked\<close> and the state.
\<close>

fun try_prefs :: "dtlib \<Rightarrow> string \<Rightarrow> string \<Rightarrow> string list \<Rightarrow> state \<Rightarrow> bool \<times> state" where
  "try_prefs L name email [] st = (False, st)"
| "try_prefs L name email (p # ps) st =
     (case fromisoformat L p of
        None \<Rightarrow> try_prefs L name email ps (py_print (MsgInvalidDatetime p) st)
      | Some start_dt \<Rightarrow>
          (case add_timedelta start_dt (timedelta_minutes DURATION_MINUTES) of
             Inl e \<Rightarrow> (False, raise e st)
           | Inr end_dt \<Rightarrow>
               if \<not> slot_overlaps start_dt end_dt (bookings st)
               then (case book_slot L name email start_dt end_dt st of
                       Inl e \<Rightarrow> (False, raise e st)
                     | Inr st' \<Rightarrow> (True, st'))
               else try_prefs L name email ps st))"

definition split_prefs :: "string \<Rightarrow> string list" where
  "split_prefs raw_prefs = filter (\<lambda>p. p \<noteq> []) (map strip (str_split CHR '';'' raw_prefs))"

text \<open>Lines 87 to 113: one row of the intake file.\<close>

definition process_row :: "dtlib \<Rightarrow> dictrow \<Rightarrow> state \<Rightarrow> state" where
  "process_row L row st =
     (case getitem_strip row ''name'' of
        Inl e \<Rightarrow> raise e st
      | Inr name \<Rightarrow>
     (case getitem_strip row ''email'' of
        Inl e \<Rightarrow> raise e st
      | Inr email \<Rightarrow>
     (case get_strip row ''preferred_slots'' of
        Inl e \<Rightarrow> raise e st
      | Inr raw_prefs \<Rightarrow>
          if raw_prefs = [] then py_print (MsgNoPreferredSlots name) st
          else
            (let r = try_prefs L name email (split_prefs raw_prefs) st
             in if raised (snd r) \<noteq> None then snd r
                else if \<not> fst r then py_print (MsgNoFreeSlot name) (snd r)
                else snd r))))"

fun process_rows :: "dtlib \<Rightarrow> dictrow list \<Rightarrow> state \<Rightarrow> state" where
  "process_rows L [] st = st"
| "process_rows L (row # rows) st =
     (let st' = process_row L row st
      in if raised st' \<noteq> None then st' else process_rows L rows st')"

definition initial_state :: "string option \<Rightarrow> state" where
  "initial_state existing =
     \<lparr>bookings = [], scheduled = [], existing_csv = existing, out_files = [],
      printed = [], trace = [], raised = None\<rparr>"

definition print_summary :: "state \<Rightarrow> state" where
  "print_summary st =
     st\<lparr>printed := printed st @ MsgSummary (length (scheduled st))
          # map (\<lambda>(name, email, start, filename). MsgSummaryLine name start filename)
              (scheduled st)\<rparr>"

text \<open>
  \<open>main\<close>, from the two input files: the intake file and the bookings file.
\<close>

definition main :: "dtlib \<Rightarrow> csvfile option \<Rightarrow> string option \<Rightarrow> state" where
  "main L intake_csv existing =
     (case intake_csv of
        None \<Rightarrow> raise SystemExit (py_print MsgCreateIntake (initial_state existing))
      | Some recs \<Rightarrow>
          (case read_existing_bookings L existing of
             Inl e \<Rightarrow> raise e (initial_state existing)
           | Inr bs \<Rightarrow>
               (let st = process_rows L (DictReader recs) ((initial_state existing)\<lparr>bookings := bs\<rparr>)
                in if raised st \<noteq> None then st else print_summary st)))"

subsection \<open>Properties of the ledger, of the selector and of the history of effects\<close>

text \<open>The slot length the script uses: 30 minutes, in microseconds.\<close>

definition SLOT :: int where
  "SLOT = timedelta_minutes DURATION_MINUTES"

text \<open>Two intervals overlap, in the words of the specification.\<close>

definition overlap :: "datetime \<times> datetime \<Rightarrow> datetime \<times> datetime \<Rightarrow> bool" where
  "overlap a b = (fst a < snd b \<and> snd a > fst b)"

text \<open>No two intervals of a list, at different positions, overlap.\<close>

fun no_overlap :: "(datetime \<times> datetime) list \<Rightarrow> bool" where
  "no_overlap [] = True"
| "no_overlap (b # bs) = ((\<forall>c \<in> set bs. \<not> overlap b c) \<and> no_overlap bs)"

text \<open>
  The slot selector as the specification words it: the first candidate, in the given
  order, that the overlap check lets through.
\<close>

fun select ::
  "(datetime \<times> datetime) list \<Rightarrow> (datetime \<times> datetime) list \<Rightarrow> (datetime \<times> datetime) option"
where
  "select [] committed = None"
| "select (c # cs) committed =
     (if \<not> slot_overlaps (fst c) (snd c) committed then Some c else select cs committed)"

text \<open>
  The candidate intervals of a request: its preferred slots that \<open>fromisoformat\<close> accepts,
  in the order of the request, each 30 minutes long.
\<close>

definition candidate_intervals :: "dtlib \<Rightarrow> string list \<Rightarrow> (datetime \<times> datetime) list" where
  "candidate_intervals L prefs =
     map (\<lambda>d. (d, d + SLOT)) (List.map_filter (fromisoformat L) prefs)"

text \<open>The end of every candidate interval is a datetime.\<close>

definition representable :: "(datetime \<times> datetime) list \<Rightarrow> bool" where
  "representable cands = (\<forall>c \<in> set cands. 0 \<le> snd c \<and> snd c \<le> DATETIME_MAX)"

text \<open>The preferred slots that the script makes of a row.\<close>

definition prefs_of :: "dictrow \<Rightarrow> string list" where
  "prefs_of row =
     (case get_strip row ''preferred_slots'' of Inl e \<Rightarrow> [] | Inr raw_prefs \<Rightarrow> split_prefs raw_prefs)"

text \<open>The intervals that a history appends to the bookings file, in order.\<close>

fun appended_intervals :: "event list \<Rightarrow> (datetime \<times> datetime) list" where
  "appended_intervals [] = []"
| "appended_intervals (BookingAppended s e # tr) = (s, e) # appended_intervals tr"
| "appended_intervals (IcsWritten f s d # tr) = appended_intervals tr"

text \<open>
  A history in which every invite is written only after its interval was appended to the
  bookings file: \<open>seen\<close> holds the intervals appended so far.
\<close>

fun invites_follow_appends :: "(datetime \<times> datetime) list \<Rightarrow> event list \<Rightarrow> bool" where
  "invites_follow_appends seen [] = True"
| "invites_follow_appends seen (BookingAppended s e # tr) =
     invites_follow_appends ((s, e) # seen) tr"
| "invites_follow_appends seen (IcsWritten f s d # tr) =
     ((s, s + timedelta_minutes d) \<in> set seen \<and> invites_follow_appends seen tr)"

text \<open>
  A history made of pairs: an invite written, and next the append of the interval of that
  invite.
\<close>

fun invite_then_append :: "event list \<Rightarrow> bool" where
  "invite_then_append [] = True"
| "invite_then_append (IcsWritten f s d # BookingAppended s' e' # tr) =
     (s' = s \<and> e' = s + timedelta_minutes d \<and> invite_then_append tr)"
| "invite_then_append (ev # tr) = False"

text \<open>
  The shape of a line of a file: once a line end character has come, only such
  characters follow.
\<close>

definition line_shape :: "string \<Rightarrow> bool" where
  "line_shape l \<longleftrightarrow> (\<forall>c \<in> set (dropWhile (\<lambda>c. c \<noteq> CR \<and> c \<noteq> LF) l). c = CR \<or> c = LF)"

text \<open>
  The name of an invite file that can be written in the folder \<open>out\<close>: it has no NUL and
  no \<open>/\<close>, and is not too long.
\<close>

definition writable :: "string \<Rightarrow> bool" where
  "writable name \<longleftrightarrow>
     CHR 0x00 \<notin> set name \<and> CHR ''/'' \<notin> set name \<and> utf8_length name \<le> NAME_MAX"

subsection \<open>A datetime library to run the script on\<close>

text \<open>
  The theorems below hold for every \<open>dtlib\<close>. To run the model on concrete files, here is
  one: the proleptic Gregorian calendar of Python's \<open>datetime\<close>, with \<open>fromisoformat\<close>
  for the texts of the forms \<open>YYYY-MM-DD HH:MM\<close> and \<open>YYYY-MM-DD HH:MM:SS\<close> (any
  character between date and time), \<open>strftime\<close> for the directives \<open>%Y %m %d %H %M %S\<close>,
  and \<open>isoformat\<close>.
\<close>

definition is_leap :: "int \<Rightarrow> bool" where
  "is_leap y = (y mod 4 = 0 \<and> (y mod 100 \<noteq> 0 \<or> y mod 400 = 0))"

definition days_before_year :: "int \<Rightarrow> int" where
  "days_before_year y = (y - 1) * 365 + (y - 1) div 4 - (y - 1) div 100 + (y - 1) div 400"

definition days_in_month :: "int \<Rightarrow> int \<Rightarrow> int" where
  "days_in_month y m =
     (if m = 2 then (if is_leap y then 29 else 28)
      else if m = 4 \<or> m = 6 \<or> m = 9 \<or> m = 11 then 30 else 31)"

definition days_before_month :: "int \<Rightarrow> int \<Rightarrow> int" where
  "days_before_month y m = sum_list (map (days_in_month y) [1..m - 1])"

definition ymd2ord :: "int \<Rightarrow> int \<Rightarrow> int \<Rightarrow> int" where
  "ymd2ord y m d = days_before_year y + days_before_month y m + d"

definition ord2ymd :: "int \<Rightarrow> int \<times> int \<times> int" where
  "ord2ymd n0 =
     (let n = n0 - 1;
          n400 = n div 146097; n = n mod 146097;
          n100 = n div 36524; n = n mod 36524;
          n4 = n div 1461; n = n mod 1461;
          n1 = n div 365; n = n mod 365;
          year = n400 * 400 + 1 + n100 * 100 + n4 * 4 + n1
      in if n1 = 4 \<or> n100 = 4 then (year - 1, 12, 31)
         else
           (let month = (n + 50) div 32;
                preceding = days_before_month year month
            in if preceding > n
               then (year, month - 1, n - (preceding - days_in_month year (month - 1)) + 1)
               else (year, month, n - preceding + 1)))"

definition digit_val :: "char \<Rightarrow> int option" where
  "digit_val c =
     (let n = (of_char c :: nat) in if 48 \<le> n \<and> n \<le> 57 then Some (int n - 48) else None)"

fun digits :: "int \<Rightarrow> string \<Rightarrow> int option" where
  "digits acc [] = Some acc"
| "digits acc (c # cs) =
     (case digit_val c of None \<Rightarrow> None | Some v \<Rightarrow> digits (acc * 10 + v) cs)"

definition field :: "string \<Rightarrow> nat \<Rightarrow> nat \<Rightarrow> int option" where
  "field s i n = digits 0 (take n (drop i s))"

definition mk_datetime :: "int \<Rightarrow> int \<Rightarrow> int \<Rightarrow> int \<Rightarrow> int \<Rightarrow> int \<Rightarrow> datetime option" where
  "mk_datetime y m d hh mm ss =
     (if 1 \<le> y \<and> y \<le> 9999 \<and> 1 \<le> m \<and> m \<le> 12 \<and> 1 \<le> d \<and> d \<le> days_in_month y m
         \<and> hh \<le> 23 \<and> mm \<le> 59 \<and> ss \<le> 59
      then Some (((ymd2ord y m d - 1) * 86400 + (hh * 60 + mm) * 60 + ss) * 1000000)
      else None)"

definition iso_parse :: "string \<Rightarrow> datetime option" where
  "iso_parse s =
     (if (length s = 16 \<or> length s = 19 \<and> s ! 16 = CHR '':'')
         \<and> s ! 4 = CHR ''-'' \<and> s ! 7 = CHR ''-'' \<and> s ! 13 = CHR '':''
      then
        (case (field s 0 4, field s 5 2, field s 8 2, field s 11 2, field s 14 2,
               if length s = 19 then field s 17 2 else Some 0) of
           (Some y, Some m, Some d, Some hh, Some mm, Some ss) \<Rightarrow> mk_datetime y m d hh mm ss
         | _ \<Rightarrow> None)
      else None)"

fun pad :: "nat \<Rightarrow> int \<Rightarrow> string" where
  "pad 0 v = []"
| "pad (Suc k) v = pad k (v div 10) @ [char_of (48 + v mod 10)]"

definition directive :: "datetime \<Rightarrow> char \<Rightarrow> string" where
  "directive t c =
     (let secs = t div 1000000; day = secs div 86400; r = secs mod 86400;
          ymd = ord2ymd (day + 1)
      in if c = CHR ''Y'' then pad 4 (fst ymd)
         else if c = CHR ''m'' then pad 2 (fst (snd ymd))
         else if c = CHR ''d'' then pad 2 (snd (snd ymd))
         else if c = CHR ''H'' then pad 2 (r div 3600)
         else if c = CHR ''M'' then pad 2 (r mod 3600 div 60)
         else if c = CHR ''S'' then pad 2 (r mod 60)
         else [CHR ''%'', c])"

fun format_from :: "datetime \<Rightarrow> bool \<Rightarrow> string \<Rightarrow> string" where
  "format_from t pending [] = (if pending then ''%'' else [])"
| "format_from t pending (c # cs) =
     (if pending then directive t c @ format_from t False cs
      else if c = CHR ''%'' then format_from t True cs
      else c # format_from t False cs)"

definition format_time :: "datetime \<Rightarrow> string \<Rightarrow> string" where
  "format_time t fmt = format_from t False fmt"

definition iso_print :: "datetime \<Rightarrow> string" where
  "iso_print t =
     format_time t ''%Y-%m-%dT%H:%M:%S''
       @ (if t mod 1000000 = 0 then [] else CHR ''.'' # pad 6 (t mod 1000000))"

definition pylib :: dtlib where
  "pylib = \<lparr>fromisoformat = iso_parse, isoformat = iso_print, strftime = format_time\<rparr>"

text \<open>The header of the intake file, and three moments of 1 September 2025.\<close>

definition intake_header :: "string list" where
  "intake_header = [''name'', ''email'', ''preferred_slots'']"

definition t0800 :: datetime where
  "t0800 = 63892310400000000"

definition t0900 :: datetime where
  "t0900 = 63892314000000000"

definition t1000 :: datetime where
  "t1000 = 63892317600000000"

text \<open>Intake files and states to run the script on.\<close>

definition intake_two_slots :: csvfile where
  "intake_two_slots =
     [intake_header, [''Ada'', ''a@x'', ''2025-09-01 09:00;2025-09-01 10:00'']]"

definition booked_0900 :: state where
  "booked_0900 = (initial_state None)\<lparr>bookings := [(t0900, t0900 + SLOT)]\<rparr>"

definition prefs_three :: "string list" where
  "prefs_three = [''2025-09-01 09:00'', ''tomorrow'', ''2025-09-01 10:00'']"

text \<open>
  The state \<open>st'\<close> continues \<open>st\<close> by the history \<open>tr\<close>: the history is made of pairs of an
  invite and the append of its interval, and the committed set grows by the appended
  intervals.
\<close>

definition grows_by :: "state \<Rightarrow> state \<Rightarrow> event list \<Rightarrow> bool" where
  "grows_by st st' tr \<longleftrightarrow>
     trace st' = trace st @ tr \<and> invite_then_append tr
     \<and> bookings st' = bookings st @ appended_intervals tr"

definition intake_same_slot :: csvfile where
  "intake_same_slot =
     [intake_header, [''Ada'', ''ada@x'', ''2025-09-01 09:00''],
      [''Bo'', ''bo@x'', ''2025-09-01 09:00'']]"

definition intake_short_row :: csvfile where
  "intake_short_row = [intake_header, [''Ada''], [''Bo'', ''bo@x'', ''2025-09-01 09:00'']]"

definition intake_bo :: csvfile where
  "intake_bo = [intake_header, [''Bo'', ''bo@x'', ''2025-09-01 09:00'']]"

definition row_blank_name :: dictrow where
  "row_blank_name = mkdict intake_header [''  '', ''x@y'', ''2025-09-01 09:00'']"

definition row_malformed :: dictrow where
  "row_malformed = mkdict intake_header [''Cy'', ''cy@x'', ''tomorrow'']"

definition row_no_slots :: dictrow where
  "row_no_slots = mkdict intake_header [''Dee'', ''dee@x'', ''  '']"

definition CRLF :: string where
  "CRLF = [CR, LF]"

text \<open>
  Texts of the bookings file: the one the script writes for one booking at 09:00, the
  record alone without the header, and the same record twice.
\<close>

definition store_0900 :: string where
  "store_0900 = ''start,end'' @ CRLF @ ''2025-09-01T09:00:00,2025-09-01T09:30:00'' @ CRLF"

definition store_no_header :: string where
  "store_no_header = ''2025-09-01T09:00:00,2025-09-01T09:30:00'' @ CRLF"

definition store_twice :: string where
  "store_twice = store_no_header @ store_no_header"

text \<open>A bookings file written by hand, whose last line has no end.\<close>

definition store_no_newline :: string where
  "store_no_newline = ''start,end'' @ CRLF @ ''2025-09-01T08:00:00,2025-09-01T08:30:00''"

text \<open>Every candidate interval of a row overlaps the committed set.\<close>

definition covered :: "dtlib \<Rightarrow> dictrow \<Rightarrow> (datetime \<times> datetime) list \<Rightarrow> bool" where
  "covered L row committed \<longleftrightarrow>
     (\<forall>c \<in> set (candidate_intervals L (prefs_of row)). slot_overlaps (fst c) (snd c) committed)"

text \<open>A request whose name has a \<open>/\<close> in it, before another request.\<close>

definition intake_slash :: csvfile where
  "intake_slash =
     [intake_header, [''A/B'', ''ab@x'', ''2025-09-01 09:00''],
      [''Bo'', ''bo@x'', ''2025-09-01 10:00'']]"

text \<open>Two requests for the slot at 10:00.\<close>

definition row_ada_1000 :: dictrow where
  "row_ada_1000 = mkdict intake_header [''Ada'', ''ada@x'', ''2025-09-01 10:00'']"

definition row_bo_1000 :: dictrow where
  "row_bo_1000 = mkdict intake_header [''Bo'', ''bo@x'', ''2025-09-01 10:00'']"

section \<open>The overlap check\<close>

lemma slot_overlaps_set:
  "slot_overlaps start stop bs \<longleftrightarrow> (\<exists>b \<in> set bs. start < snd b \<and> stop > fst b)"
  by (induction bs) auto

text \<open>
  Claim C4. For every candidate interval and every sequence of committed intervals, the
  overlap check is true exactly when some committed interval \<open>b\<close> has
  \<open>a.start < b.end\<close> and \<open>a.end > b.start\<close>. Two intervals that touch at an end point, such
  as 10:00 to 11:00 and 11:00 to 12:00, do not overlap, whichever of the two is the
  candidate.
\<close>

theorem slot_overlaps_semantics:
  "(slot_overlaps a_start a_end committed
      \<longleftrightarrow> (\<exists>b \<in> set committed. a_start < snd b \<and> a_end > fst b))
   \<and> \<not> slot_overlaps t10 t11 [(t11, t12)]
   \<and> \<not> slot_overlaps t11 t12 [(t10, t11)]"
  using slot_overlaps_set by simp

text \<open>
  Claim C9. The overlap check is symmetric: checking \<open>A\<close> against the committed set that
  holds only \<open>B\<close> gives what checking \<open>B\<close> against the committed set that holds only \<open>A\<close>
  gives.
\<close>

theorem slot_overlaps_symmetric:
  "slot_overlaps (fst A) (snd A) [B] = slot_overlaps (fst B) (snd B) [A]"
  by (cases A; cases B) auto

section \<open>Effects of the steps on the state\<close>

lemma SLOT_value: "SLOT = 1800000000"
  by (simp add: SLOT_def timedelta_minutes_def DURATION_MINUTES_def)

lemma slot_is_SLOT: "timedelta_minutes DURATION_MINUTES = SLOT"
  by (simp add: SLOT_def)

lemma py_print_fields [simp]:
  "bookings (py_print m st) = bookings st"
  "scheduled (py_print m st) = scheduled st"
  "existing_csv (py_print m st) = existing_csv st"
  "out_files (py_print m st) = out_files st"
  "trace (py_print m st) = trace st"
  "raised (py_print m st) = raised st"
  "printed (py_print m st) = printed st @ [m]"
  by (simp_all add: py_print_def)

lemma raise_fields [simp]:
  "bookings (raise e st) = bookings st"
  "scheduled (raise e st) = scheduled st"
  "existing_csv (raise e st) = existing_csv st"
  "out_files (raise e st) = out_files st"
  "trace (raise e st) = trace st"
  "printed (raise e st) = printed st"
  "raised (raise e st) = Some e"
  by (simp_all add: raise_def)

text \<open>Writing the invite of a request: which names go through.\<close>

lemma filename_of_rel:
  "drop (Suc (length OUT_DIR)) (filename_of L name s) = invite_name L name s"
  by (simp add: filename_of_def OUT_DIR_def)

lemma filename_of_NUL:
  "CHR 0x00 \<in> set (filename_of L name s) \<longleftrightarrow> CHR 0x00 \<in> set (invite_name L name s)"
  by (auto simp: filename_of_def OUT_DIR_def)

lemma takeWhile_no_slash:
  "CHR ''/'' \<notin> set rel \<Longrightarrow> takeWhile (\<lambda>c. c \<noteq> CHR ''/'') rel = rel"
  by (induction rel) auto

lemma write_text_error_writable:
  "write_text_error files (filename_of L name s) = None \<longleftrightarrow> writable (invite_name L name s)"
proof (cases "CHR ''/'' \<in> set (invite_name L name s)")
  case True
  then show ?thesis
    by (simp add: write_text_error_def Let_def filename_of_rel filename_of_NUL writable_def)
next
  case False
  then show ?thesis
    by (auto simp: write_text_error_def Let_def filename_of_rel filename_of_NUL writable_def
        takeWhile_no_slash)
qed

lemma book_slot_writable:
  "writable (invite_name L name s) \<Longrightarrow> \<exists>st'. book_slot L name email s e st = Inr st'"
  using write_text_error_writable [of "out_files st" L name s]
  by (simp add: book_slot_def create_ics_def Let_def)

lemma book_slot_not_writable:
  "\<not> writable (invite_name L name s) \<Longrightarrow> \<exists>err. book_slot L name email s e st = Inl err"
  using write_text_error_writable [of "out_files st" L name s]
  by (auto simp: book_slot_def create_ics_def Let_def)

lemma book_slot_Inr_writable:
  "book_slot L name email s e st = Inr st' \<Longrightarrow> writable (invite_name L name s)"
  using book_slot_not_writable [of L name s email e st] by auto

lemma book_slot_fields:
  assumes "book_slot L name email s e st = Inr st'"
  shows "bookings st' = bookings st @ [(s, e)]"
    and "raised st' = raised st"
    and "trace st'
     = trace st @ [IcsWritten (filename_of L name s) s DURATION_MINUTES, BookingAppended s e]"
    and "existing_csv st'
     = Some ((case existing_csv st of
                None \<Rightarrow> writerow [''start'', ''end''] | Some text \<Rightarrow> text)
             @ writerow [isoformat L s, isoformat L e])"
    and "printed st'
     = printed st @ [MsgScheduled name (isoformat L s) (filename_of L name s)]"
    and "scheduled st'
     = scheduled st @ [(name, email, strftime L s ''%Y-%m-%d %H:%M'', filename_of L name s)]"
    and "map fst (out_files st') = filename_of L name s # map fst (out_files st)"
  using assms
  by (auto simp: book_slot_def create_ics_def append_booking_to_existing_def Let_def
      split: option.splits)

lemma add_timedelta_Inr: "add_timedelta d x = Inr y \<Longrightarrow> y = d + x \<and> 0 \<le> d + x \<and> d + x \<le> DATETIME_MAX"
  by (auto simp: add_timedelta_def split: if_splits)

lemma add_timedelta_Inl: "add_timedelta d x = Inl e \<Longrightarrow> e = OverflowError"
  by (auto simp: add_timedelta_def split: if_splits)

lemma overlap_sym: "overlap a b = overlap b a"
  by (auto simp: overlap_def)

lemma slot_overlaps_overlap:
  "slot_overlaps (fst c) (snd c) bs \<longleftrightarrow> (\<exists>b \<in> set bs. overlap c b)"
  by (simp add: slot_overlaps_set overlap_def)

lemma no_overlap_append:
  "no_overlap (bs @ [c]) \<longleftrightarrow> no_overlap bs \<and> (\<forall>b \<in> set bs. \<not> overlap b c)"
  by (induction bs) auto

lemma no_overlap_snoc:
  "no_overlap bs \<Longrightarrow> \<not> slot_overlaps s e bs \<Longrightarrow> no_overlap (bs @ [(s, e)])"
  using slot_overlaps_overlap [of "(s, e)" bs] overlap_sym by (auto simp: no_overlap_append)

lemma no_overlap_nth:
  "no_overlap bs \<longleftrightarrow> (\<forall>i j. i < j \<and> j < length bs \<longrightarrow> \<not> overlap (bs ! i) (bs ! j))"
proof (induction bs)
  case Nil
  then show ?case by simp
next
  case (Cons b bs)
  show ?case
  proof
    assume h: "no_overlap (b # bs)"
    show "\<forall>i j. i < j \<and> j < length (b # bs) \<longrightarrow> \<not> overlap ((b # bs) ! i) ((b # bs) ! j)"
    proof (intro allI impI)
      fix i j assume ij: "i < j \<and> j < length (b # bs)"
      then obtain j' where j': "j = Suc j'" by (cases j) auto
      show "\<not> overlap ((b # bs) ! i) ((b # bs) ! j)"
      proof (cases i)
        case 0
        with h ij j' show ?thesis by auto
      next
        case (Suc i')
        with h ij j' Cons.IH show ?thesis by auto
      qed
    qed
  next
    assume h: "\<forall>i j. i < j \<and> j < length (b # bs) \<longrightarrow> \<not> overlap ((b # bs) ! i) ((b # bs) ! j)"
    have "\<forall>c \<in> set bs. \<not> overlap b c"
    proof
      fix c assume "c \<in> set bs"
      then obtain k where "k < length bs" "bs ! k = c" by (auto simp: in_set_conv_nth)
      with h [rule_format, of 0 "Suc k"] show "\<not> overlap b c" by simp
    qed
    moreover have "no_overlap bs"
    proof -
      have "\<forall>i j. i < j \<and> j < length bs \<longrightarrow> \<not> overlap (bs ! i) (bs ! j)"
      proof (intro allI impI)
        fix i j assume "i < j \<and> j < length bs"
        with h [rule_format, of "Suc i" "Suc j"] show "\<not> overlap (bs ! i) (bs ! j)" by simp
      qed
      with Cons.IH show ?thesis by simp
    qed
    ultimately show "no_overlap (b # bs)" by simp
  qed
qed

lemma try_prefs_no_overlap:
  "no_overlap (bookings st) \<Longrightarrow> no_overlap (bookings (snd (try_prefs L name email prefs st)))"
proof (induction prefs arbitrary: st)
  case Nil
  then show ?case by simp
next
  case (Cons p ps)
  show ?case
  proof (cases "fromisoformat L p")
    case None
    with Cons show ?thesis by simp
  next
    case (Some d)
    show ?thesis
    proof (cases "add_timedelta d (timedelta_minutes DURATION_MINUTES)")
      case (Inl e)
      with Some Cons.prems show ?thesis by simp
    next
      case (Inr end_dt)
      show ?thesis
      proof (cases "slot_overlaps d end_dt (bookings st)")
        case True
        with Some Inr Cons show ?thesis by simp
      next
        case False
        show ?thesis
        proof (cases "book_slot L name email d end_dt st")
          case (Inl err)
          with Some Inr False Cons.prems show ?thesis by simp
        next
          case booked: (Inr st')
          from book_slot_fields(1) [OF booked] no_overlap_snoc [OF Cons.prems False]
          have "no_overlap (bookings st')" by simp
          with Some Inr False booked show ?thesis by simp
        qed
      qed
    qed
  qed
qed

lemma process_row_no_overlap:
  "no_overlap (bookings st) \<Longrightarrow> no_overlap (bookings (process_row L row st))"
  by (auto simp: process_row_def Let_def try_prefs_no_overlap split: sum.splits)

lemma process_rows_no_overlap:
  "no_overlap (bookings st) \<Longrightarrow> no_overlap (bookings (process_rows L rows st))"
  by (induction rows arbitrary: st) (auto simp: Let_def process_row_no_overlap)

text \<open>
  Claim C2. Starting from a committed set in which no two intervals overlap, after any
  sequence of requests is processed no two intervals of the committed set overlap. (By
  \<open>no_overlap_nth\<close>, \<open>no_overlap\<close> says that the intervals at any two different positions
  do not overlap.) The statement holds as well when the run is ended by an exception.
\<close>

theorem ledger_no_overlap:
  "no_overlap (bookings st) \<Longrightarrow> no_overlap (bookings (process_rows L rows st))"
  by (rule process_rows_no_overlap)

theorem ledger_no_overlap_witness:
  "no_overlap (bookings booked_0900)
   \<and> bookings (process_rows pylib (DictReader intake_two_slots) booked_0900)
       = [(t0900, t0900 + SLOT), (t1000, t1000 + SLOT)]
   \<and> no_overlap (bookings (process_rows pylib (DictReader intake_two_slots) booked_0900))"
proof -
  have h: "no_overlap (bookings booked_0900)"
    by code_simp
  have r: "bookings (process_rows pylib (DictReader intake_two_slots) booked_0900)
             = [(t0900, t0900 + SLOT), (t1000, t1000 + SLOT)]"
    by code_simp
  from ledger_no_overlap [OF h, of pylib "DictReader intake_two_slots"] h r
  show ?thesis by simp
qed

section \<open>The slot selector\<close>

lemma candidate_intervals_Nil [simp]: "candidate_intervals L [] = []"
  by (simp add: candidate_intervals_def List.map_filter_simps)

lemma candidate_intervals_Cons:
  "candidate_intervals L (p # ps) =
     (case fromisoformat L p of
        None \<Rightarrow> candidate_intervals L ps
      | Some d \<Rightarrow> (d, d + SLOT) # candidate_intervals L ps)"
  by (simp add: candidate_intervals_def List.map_filter_simps split: option.splits)

lemma add_timedelta_representable:
  "0 \<le> d + SLOT \<Longrightarrow> d + SLOT \<le> DATETIME_MAX
     \<Longrightarrow> add_timedelta d (timedelta_minutes DURATION_MINUTES) = Inr (d + SLOT)"
  by (simp add: add_timedelta_def slot_is_SLOT)

text \<open>
  The loop and the selector. \<open>select\<close> names the candidate that the loop goes on to
  book; whether the booking is made then hangs on the invite file alone.
\<close>

lemma try_prefs_select:
  "representable (candidate_intervals L prefs) \<Longrightarrow>
   (fst (try_prefs L name email prefs st)
      \<longleftrightarrow> (\<exists>c. select (candidate_intervals L prefs) (bookings st) = Some c
               \<and> writable (invite_name L name (fst c))))
   \<and> bookings (snd (try_prefs L name email prefs st))
       = bookings st @ (case select (candidate_intervals L prefs) (bookings st) of
                          None \<Rightarrow> []
                        | Some c \<Rightarrow> if writable (invite_name L name (fst c)) then [c] else [])
   \<and> (\<forall>c. select (candidate_intervals L prefs) (bookings st) = Some c
          \<and> \<not> writable (invite_name L name (fst c))
          \<longrightarrow> raised (snd (try_prefs L name email prefs st)) \<noteq> None)
   \<and> ((\<forall>c. select (candidate_intervals L prefs) (bookings st) = Some c
           \<longrightarrow> writable (invite_name L name (fst c)))
        \<longrightarrow> raised (snd (try_prefs L name email prefs st)) = raised st)"
proof (induction prefs arbitrary: st)
  case Nil
  then show ?case by simp
next
  case (Cons p ps)
  show ?case
  proof (cases "fromisoformat L p")
    case None
    with Cons.prems have "representable (candidate_intervals L ps)"
      by (simp add: candidate_intervals_Cons)
    from Cons.IH [OF this, of "py_print (MsgInvalidDatetime p) st"] None
    show ?thesis by (simp add: candidate_intervals_Cons)
  next
    case (Some d)
    with Cons.prems have rp: "representable (candidate_intervals L ps)"
      and rg: "0 \<le> d + SLOT" "d + SLOT \<le> DATETIME_MAX"
      by (simp_all add: candidate_intervals_Cons representable_def)
    note add = add_timedelta_representable [OF rg]
    show ?thesis
    proof (cases "slot_overlaps d (d + SLOT) (bookings st)")
      case True
      with Cons.IH [OF rp, of st] Some add show ?thesis
        by (simp add: candidate_intervals_Cons)
    next
      case False
      show ?thesis
      proof (cases "writable (invite_name L name d)")
        case w: True
        from book_slot_writable [OF w] obtain st' where
          b: "book_slot L name email d (d + SLOT) st = Inr st'"
          by blast
        from Some add False w b book_slot_fields(1,2) [OF b] show ?thesis
          by (simp add: candidate_intervals_Cons)
      next
        case w: False
        from book_slot_not_writable [OF w] obtain err where
          b: "book_slot L name email d (d + SLOT) st = Inl err"
          by blast
        from Some add False w b show ?thesis
          by (simp add: candidate_intervals_Cons)
      qed
    qed
  qed
qed

lemma select_None_iff:
  "select cands committed = None \<longleftrightarrow> (\<forall>c \<in> set cands. slot_overlaps (fst c) (snd c) committed)"
  by (induction cands) auto

lemma select_Some_iff:
  "select cands committed = Some c \<longleftrightarrow>
     (\<exists>i < length cands. cands ! i = c \<and> \<not> slot_overlaps (fst c) (snd c) committed
        \<and> (\<forall>j < i. slot_overlaps (fst (cands ! j)) (snd (cands ! j)) committed))"
proof (induction cands)
  case Nil
  then show ?case by simp
next
  case (Cons a cands)
  show ?case
  proof (cases "slot_overlaps (fst a) (snd a) committed")
    case False
    have "(\<exists>i < length (a # cands). (a # cands) ! i = c \<and> \<not> slot_overlaps (fst c) (snd c) committed
        \<and> (\<forall>j < i. slot_overlaps (fst ((a # cands) ! j)) (snd ((a # cands) ! j)) committed))
        \<longleftrightarrow> a = c"
    proof
      assume "\<exists>i < length (a # cands). (a # cands) ! i = c \<and> \<not> slot_overlaps (fst c) (snd c) committed
        \<and> (\<forall>j < i. slot_overlaps (fst ((a # cands) ! j)) (snd ((a # cands) ! j)) committed)"
      then obtain i where i: "(a # cands) ! i = c"
        "\<forall>j < i. slot_overlaps (fst ((a # cands) ! j)) (snd ((a # cands) ! j)) committed"
        by blast
      have "i = 0"
      proof (rule ccontr)
        assume "i \<noteq> 0"
        then have "0 < i" by simp
        with i(2) have "slot_overlaps (fst ((a # cands) ! 0)) (snd ((a # cands) ! 0)) committed"
          by blast
        with False show False by simp
      qed
      with i(1) show "a = c" by simp
    next
      assume "a = c"
      with False show "\<exists>i < length (a # cands). (a # cands) ! i = c \<and> \<not> slot_overlaps (fst c) (snd c) committed
        \<and> (\<forall>j < i. slot_overlaps (fst ((a # cands) ! j)) (snd ((a # cands) ! j)) committed)"
        by (intro exI [of _ 0]) simp
    qed
    with False show ?thesis by simp
  next
    case True
    have "(\<exists>i < length (a # cands). (a # cands) ! i = c \<and> \<not> slot_overlaps (fst c) (snd c) committed
        \<and> (\<forall>j < i. slot_overlaps (fst ((a # cands) ! j)) (snd ((a # cands) ! j)) committed))
        \<longleftrightarrow> (\<exists>i < length cands. cands ! i = c \<and> \<not> slot_overlaps (fst c) (snd c) committed
        \<and> (\<forall>j < i. slot_overlaps (fst (cands ! j)) (snd (cands ! j)) committed))"
      (is "?L \<longleftrightarrow> ?R")
    proof
      assume ?L
      then obtain i where i: "i < length (a # cands)" "(a # cands) ! i = c"
        "\<not> slot_overlaps (fst c) (snd c) committed"
        "\<forall>j < i. slot_overlaps (fst ((a # cands) ! j)) (snd ((a # cands) ! j)) committed"
        by blast
      from i(2,3) True have "i \<noteq> 0" by (cases i) auto
      then obtain k where k: "i = Suc k" by (cases i) auto
      have "\<forall>j < k. slot_overlaps (fst (cands ! j)) (snd (cands ! j)) committed"
      proof (intro allI impI)
        fix j assume "j < k"
        with i(4) [rule_format, of "Suc j"] k
        show "slot_overlaps (fst (cands ! j)) (snd (cands ! j)) committed" by simp
      qed
      with i k show ?R by (intro exI [of _ k]) simp
    next
      assume ?R
      then obtain k where k: "k < length cands" "cands ! k = c"
        "\<not> slot_overlaps (fst c) (snd c) committed"
        "\<forall>j < k. slot_overlaps (fst (cands ! j)) (snd (cands ! j)) committed"
        by blast
      have "\<forall>j < Suc k. slot_overlaps (fst ((a # cands) ! j)) (snd ((a # cands) ! j)) committed"
      proof (intro allI impI)
        fix j assume "j < Suc k"
        with k(4) True
        show "slot_overlaps (fst ((a # cands) ! j)) (snd ((a # cands) ! j)) committed"
          by (cases j) auto
      qed
      with k show ?L by (intro exI [of _ "Suc k"]) simp
    qed
    with True Cons.IH show ?thesis by simp
  qed
qed

text \<open>
  Claim C1. Slot selection is first-fit over the order of the request. The loop over the
  preferred slots of a request goes by what \<open>select\<close>, the selector of the specification,
  returns on the candidate intervals in their given order and the committed set: the
  candidate that \<open>select\<close> returns is the one that is booked and joins the committed set,
  and nothing is booked when \<open>select\<close> returns no slot. \<open>select\<close> returns no slot exactly
  when every candidate overlaps (so also on the empty list), and returns \<open>c\<close> exactly when
  \<open>c\<close> stands at a position \<open>i\<close> of the list, does not overlap, and every candidate at a
  position before \<open>i\<close> overlaps: no other criterion orders the candidates. Once a
  candidate is selected no other is tried: if its invite file cannot be written, the run
  stops with the exception and nothing is booked. The hypothesis says that the end of
  every candidate is a datetime (else the script stops with \<open>OverflowError\<close>).
\<close>

theorem first_fit_selection:
  "representable (candidate_intervals L prefs) \<Longrightarrow>
   (fst (try_prefs L name email prefs st)
      \<longleftrightarrow> (\<exists>c. select (candidate_intervals L prefs) (bookings st) = Some c
               \<and> writable (invite_name L name (fst c))))
   \<and> bookings (snd (try_prefs L name email prefs st))
       = bookings st @ (case select (candidate_intervals L prefs) (bookings st) of
                          None \<Rightarrow> []
                        | Some c \<Rightarrow> if writable (invite_name L name (fst c)) then [c] else [])
   \<and> (\<forall>c. select (candidate_intervals L prefs) (bookings st) = Some c
          \<and> \<not> writable (invite_name L name (fst c))
          \<longrightarrow> raised (snd (try_prefs L name email prefs st)) \<noteq> None)
   \<and> (select (candidate_intervals L prefs) (bookings st) = None
        \<longleftrightarrow> (\<forall>c \<in> set (candidate_intervals L prefs).
               slot_overlaps (fst c) (snd c) (bookings st)))
   \<and> (\<forall>c. select (candidate_intervals L prefs) (bookings st) = Some c
        \<longleftrightarrow> (\<exists>i < length (candidate_intervals L prefs).
               candidate_intervals L prefs ! i = c
               \<and> \<not> slot_overlaps (fst c) (snd c) (bookings st)
               \<and> (\<forall>j < i. slot_overlaps (fst (candidate_intervals L prefs ! j))
                             (snd (candidate_intervals L prefs ! j)) (bookings st))))"
  using try_prefs_select [of L prefs name email st]
    select_None_iff [of "candidate_intervals L prefs" "bookings st"]
    select_Some_iff [of "candidate_intervals L prefs" "bookings st"]
  by blast

theorem first_fit_selection_witness:
  "representable (candidate_intervals pylib prefs_three)
   \<and> candidate_intervals pylib prefs_three = [(t0900, t0900 + SLOT), (t1000, t1000 + SLOT)]
   \<and> select (candidate_intervals pylib prefs_three) (bookings booked_0900)
       = Some (t1000, t1000 + SLOT)
   \<and> writable (invite_name pylib ''Ada'' t1000)
   \<and> fst (try_prefs pylib ''Ada'' ''a@x'' prefs_three booked_0900)
   \<and> bookings (snd (try_prefs pylib ''Ada'' ''a@x'' prefs_three booked_0900))
       = [(t0900, t0900 + SLOT), (t1000, t1000 + SLOT)]
   \<and> \<not> writable (invite_name pylib ''A/B'' t1000)
   \<and> \<not> fst (try_prefs pylib ''A/B'' ''a@x'' prefs_three booked_0900)
   \<and> bookings (snd (try_prefs pylib ''A/B'' ''a@x'' prefs_three booked_0900))
       = [(t0900, t0900 + SLOT)]
   \<and> raised (snd (try_prefs pylib ''A/B'' ''a@x'' prefs_three booked_0900)) \<noteq> None"
proof -
  have h: "representable (candidate_intervals pylib prefs_three)"
    by code_simp
  have c: "candidate_intervals pylib prefs_three = [(t0900, t0900 + SLOT), (t1000, t1000 + SLOT)]"
    by code_simp
  have s: "select (candidate_intervals pylib prefs_three) (bookings booked_0900)
             = Some (t1000, t1000 + SLOT)"
    by code_simp
  have b: "bookings booked_0900 = [(t0900, t0900 + SLOT)]"
    by (simp add: booked_0900_def)
  have w: "writable (invite_name pylib ''Ada'' t1000)"
    by code_simp
  have nw: "\<not> writable (invite_name pylib ''A/B'' t1000)"
    by code_simp
  note T = first_fit_selection [OF h, of "''Ada''" "''a@x''" booked_0900]
  note U = first_fit_selection [OF h, of "''A/B''" "''a@x''" booked_0900]
  from T have T1: "fst (try_prefs pylib ''Ada'' ''a@x'' prefs_three booked_0900)
      \<longleftrightarrow> (\<exists>c. select (candidate_intervals pylib prefs_three) (bookings booked_0900) = Some c
               \<and> writable (invite_name pylib ''Ada'' (fst c)))"
    by (rule conjunct1)
  from T have T2: "bookings (snd (try_prefs pylib ''Ada'' ''a@x'' prefs_three booked_0900))
       = bookings booked_0900
         @ (case select (candidate_intervals pylib prefs_three) (bookings booked_0900) of
              None \<Rightarrow> []
            | Some c \<Rightarrow> if writable (invite_name pylib ''Ada'' (fst c)) then [c] else [])"
    by (rule conjunct1 [OF conjunct2])
  from U have U1: "fst (try_prefs pylib ''A/B'' ''a@x'' prefs_three booked_0900)
      \<longleftrightarrow> (\<exists>c. select (candidate_intervals pylib prefs_three) (bookings booked_0900) = Some c
               \<and> writable (invite_name pylib ''A/B'' (fst c)))"
    by (rule conjunct1)
  from U have U2: "bookings (snd (try_prefs pylib ''A/B'' ''a@x'' prefs_three booked_0900))
       = bookings booked_0900
         @ (case select (candidate_intervals pylib prefs_three) (bookings booked_0900) of
              None \<Rightarrow> []
            | Some c \<Rightarrow> if writable (invite_name pylib ''A/B'' (fst c)) then [c] else [])"
    by (rule conjunct1 [OF conjunct2])
  from U have U3: "\<forall>c. select (candidate_intervals pylib prefs_three) (bookings booked_0900) = Some c
          \<and> \<not> writable (invite_name pylib ''A/B'' (fst c))
          \<longrightarrow> raised (snd (try_prefs pylib ''A/B'' ''a@x'' prefs_three booked_0900)) \<noteq> None"
    by (rule conjunct1 [OF conjunct2 [OF conjunct2]])
  from T1 s w have f: "fst (try_prefs pylib ''Ada'' ''a@x'' prefs_three booked_0900)"
    by simp
  from T2 s w b have g: "bookings (snd (try_prefs pylib ''Ada'' ''a@x'' prefs_three booked_0900))
       = [(t0900, t0900 + SLOT), (t1000, t1000 + SLOT)]"
    by simp
  from U1 s nw have f': "\<not> fst (try_prefs pylib ''A/B'' ''a@x'' prefs_three booked_0900)"
    by simp
  from U2 s nw b have g': "bookings (snd (try_prefs pylib ''A/B'' ''a@x'' prefs_three booked_0900))
       = [(t0900, t0900 + SLOT)]"
    by simp
  from U3 s nw have r': "raised (snd (try_prefs pylib ''A/B'' ''a@x'' prefs_three booked_0900)) \<noteq> None"
    by simp
  from h c s w f g nw f' g' r' show ?thesis by blast
qed

section \<open>The history of a run\<close>

lemma SLOT_pos: "0 < SLOT"
  by (simp add: SLOT_value)

lemma book_slot_out_files:
  "book_slot L name email s e st = Inr st' \<Longrightarrow>
   \<exists>doc. out_files st' = (filename_of L name s, doc) # out_files st"
  by (auto simp: book_slot_def create_ics_def append_booking_to_existing_def Let_def
      split: option.splits)

text \<open>The two ways the loop over the preferred slots can end.\<close>

lemma try_prefs_booked:
  "fst (try_prefs L name email prefs st) \<Longrightarrow>
   \<exists>s pre. book_slot L name email s (s + SLOT) pre = Inr (snd (try_prefs L name email prefs st))
     \<and> (s, s + SLOT) \<in> set (candidate_intervals L prefs)
     \<and> \<not> slot_overlaps s (s + SLOT) (bookings st)
     \<and> bookings pre = bookings st \<and> scheduled pre = scheduled st
     \<and> existing_csv pre = existing_csv st \<and> out_files pre = out_files st
     \<and> trace pre = trace st \<and> raised pre = raised st"
proof (induction prefs arbitrary: st)
  case Nil
  then show ?case by simp
next
  case (Cons p ps)
  show ?case
  proof (cases "fromisoformat L p")
    case None
    with Cons.prems have "fst (try_prefs L name email ps (py_print (MsgInvalidDatetime p) st))"
      by simp
    from Cons.IH [OF this] None show ?thesis
      by (simp add: candidate_intervals_Cons)
  next
    case (Some d)
    show ?thesis
    proof (cases "add_timedelta d (timedelta_minutes DURATION_MINUTES)")
      case (Inl e)
      with Some Cons.prems show ?thesis by simp
    next
      case (Inr end_dt)
      then have e: "end_dt = d + SLOT"
        using add_timedelta_Inr [of d "timedelta_minutes DURATION_MINUTES" end_dt]
        by (simp add: slot_is_SLOT)
      show ?thesis
      proof (cases "slot_overlaps d (d + SLOT) (bookings st)")
        case True
        with Some Inr e Cons.prems have "fst (try_prefs L name email ps st)" by simp
        from Cons.IH [OF this] Some Inr e True show ?thesis
          by (auto simp: candidate_intervals_Cons)
      next
        case False
        show ?thesis
        proof (cases "book_slot L name email d (d + SLOT) st")
          case (Inl err)
          with Some Inr e False Cons.prems show ?thesis by simp
        next
          case booked: (Inr st')
          then have "book_slot L name email d (d + SLOT) st
              = Inr (snd (try_prefs L name email (p # ps) st))"
            using Some Inr e False by simp
          with False Some show ?thesis
            by (intro exI [of _ d] exI [of _ st]) (simp add: candidate_intervals_Cons)
        qed
      qed
    qed
  qed
qed

lemma try_prefs_not_booked:
  "\<not> fst (try_prefs L name email prefs st) \<Longrightarrow>
   bookings (snd (try_prefs L name email prefs st)) = bookings st
   \<and> scheduled (snd (try_prefs L name email prefs st)) = scheduled st
   \<and> existing_csv (snd (try_prefs L name email prefs st)) = existing_csv st
   \<and> out_files (snd (try_prefs L name email prefs st)) = out_files st
   \<and> trace (snd (try_prefs L name email prefs st)) = trace st"
proof (induction prefs arbitrary: st)
  case Nil
  then show ?case by simp
next
  case (Cons p ps)
  show ?case
  proof (cases "fromisoformat L p")
    case None
    with Cons.prems have "\<not> fst (try_prefs L name email ps (py_print (MsgInvalidDatetime p) st))"
      by simp
    from Cons.IH [OF this] None show ?thesis by simp
  next
    case (Some d)
    show ?thesis
    proof (cases "add_timedelta d (timedelta_minutes DURATION_MINUTES)")
      case (Inl e)
      with Some show ?thesis by simp
    next
      case (Inr end_dt)
      show ?thesis
      proof (cases "slot_overlaps d end_dt (bookings st)")
        case True
        with Some Inr Cons.prems have "\<not> fst (try_prefs L name email ps st)" by simp
        from Cons.IH [OF this] Some Inr True show ?thesis by simp
      next
        case False
        with Some Inr Cons.prems show ?thesis
          by (cases "book_slot L name email d end_dt st") simp_all
      qed
    qed
  qed
qed

text \<open>What a step adds to the history, and to the committed set with it.\<close>

lemma invite_then_append_app:
  "invite_then_append a \<Longrightarrow> invite_then_append b \<Longrightarrow> invite_then_append (a @ b)"
  by (induction a rule: invite_then_append.induct) auto

lemma appended_intervals_app:
  "appended_intervals (a @ b) = appended_intervals a @ appended_intervals b"
  by (induction a rule: appended_intervals.induct) auto

lemma grows_by_refl: "grows_by st st []"
  by (simp add: grows_by_def)

lemma grows_by_trans: "grows_by a b t \<Longrightarrow> grows_by b c u \<Longrightarrow> grows_by a c (t @ u)"
  by (simp add: grows_by_def invite_then_append_app appended_intervals_app)

lemma try_prefs_grows:
  "\<exists>tr. grows_by st (snd (try_prefs L name email prefs st)) tr"
proof (cases "fst (try_prefs L name email prefs st)")
  case True
  from try_prefs_booked [OF True] obtain s pre where
    r: "book_slot L name email s (s + SLOT) pre = Inr (snd (try_prefs L name email prefs st))"
    and p: "bookings pre = bookings st" "trace pre = trace st"
    by blast
  have "grows_by st (snd (try_prefs L name email prefs st))
          [IcsWritten (filename_of L name s) s DURATION_MINUTES, BookingAppended s (s + SLOT)]"
    using p book_slot_fields(1,3) [OF r] by (simp add: grows_by_def slot_is_SLOT)
  then show ?thesis by auto
next
  case False
  from try_prefs_not_booked [OF False] have "grows_by st (snd (try_prefs L name email prefs st)) []"
    by (simp add: grows_by_def)
  then show ?thesis ..
qed

lemma process_row_grows: "\<exists>tr. grows_by st (process_row L row st) tr"
proof -
  have a: "\<And>m. grows_by st (py_print m st) []" "\<And>e. grows_by st (raise e st) []"
    by (simp_all add: grows_by_def)
  have b: "\<And>m st' tr. grows_by st st' tr \<Longrightarrow> grows_by st (py_print m st') tr"
    by (simp add: grows_by_def)
  show ?thesis
    using a b try_prefs_grows [of st L]
    by (auto simp: process_row_def Let_def split: sum.splits) blast+
qed

lemma process_rows_grows: "\<exists>tr. grows_by st (process_rows L rows st) tr"
proof (induction rows arbitrary: st)
  case Nil
  show ?case using grows_by_refl by auto
next
  case (Cons row rows)
  obtain t where t: "grows_by st (process_row L row st) t"
    using process_row_grows by blast
  obtain u where u: "grows_by (process_row L row st) (process_rows L rows (process_row L row st)) u"
    using Cons.IH by blast
  from t grows_by_trans [OF t u] show ?case
    by (auto simp: Let_def)
qed

lemma main_history:
  assumes "read_existing_bookings L existing = Inr bs"
  shows "invite_then_append (trace (main L (Some recs) existing))
     \<and> bookings (main L (Some recs) existing)
         = bs @ appended_intervals (trace (main L (Some recs) existing))"
proof -
  let ?st0 = "(initial_state existing)\<lparr>bookings := bs\<rparr>"
  obtain tr where "grows_by ?st0 (process_rows L (DictReader recs) ?st0) tr"
    using process_rows_grows by blast
  then have "invite_then_append (trace (process_rows L (DictReader recs) ?st0))
     \<and> bookings (process_rows L (DictReader recs) ?st0)
         = bs @ appended_intervals (trace (process_rows L (DictReader recs) ?st0))"
    by (simp add: grows_by_def initial_state_def)
  with assms show ?thesis
    by (simp add: main_def Let_def print_summary_def)
qed

text \<open>
  Claim C5, as the code has it. For every booking of a run the invite is written exactly
  once, and the interval of the booking is appended to the bookings file directly after
  the invite is written, not before: the history of a run is a sequence of pairs, an
  invite and next the append of the interval of that invite, and the committed set at the
  end is the set that was loaded followed by the appended intervals, in order.
\<close>

theorem invite_before_append:
  "read_existing_bookings L existing = Inr bs \<Longrightarrow>
   invite_then_append (trace (main L (Some recs) existing))
   \<and> bookings (main L (Some recs) existing)
       = bs @ appended_intervals (trace (main L (Some recs) existing))"
  by (rule main_history)

theorem invite_before_append_witness:
  "read_existing_bookings pylib None = Inr []
   \<and> trace (main pylib (Some intake_two_slots) None)
       = [IcsWritten ''out/invite_Ada_20250901T0900.ics'' t0900 30,
          BookingAppended t0900 (t0900 + SLOT)]
   \<and> invite_then_append (trace (main pylib (Some intake_two_slots) None))
   \<and> bookings (main pylib (Some intake_two_slots) None)
       = [] @ appended_intervals (trace (main pylib (Some intake_two_slots) None))"
proof -
  have h: "read_existing_bookings pylib None = Inr []"
    by (simp add: read_existing_bookings_def)
  have t: "trace (main pylib (Some intake_two_slots) None)
       = [IcsWritten ''out/invite_Ada_20250901T0900.ics'' t0900 30,
          BookingAppended t0900 (t0900 + SLOT)]"
    by code_simp
  from invite_before_append [OF h, of intake_two_slots] h t show ?thesis
    by blast
qed

text \<open>
  Claim C5 as stated fails: in the run on one request with a free slot, the invite is
  written when no interval has been appended yet.
\<close>

theorem invite_after_append_counterexample:
  "trace (main pylib (Some intake_two_slots) None)
     = [IcsWritten ''out/invite_Ada_20250901T0900.ics'' t0900 30,
        BookingAppended t0900 (t0900 + SLOT)]
   \<and> \<not> invites_follow_appends [] (trace (main pylib (Some intake_two_slots) None))"
  by code_simp

section \<open>Rows of the intake file\<close>

lemma mkdict_intake:
  "mkdict intake_header [n, e, s] ''name'' = Some (Some n)"
  "mkdict intake_header [n, e, s] ''email'' = Some (Some e)"
  "mkdict intake_header [n, e, s] ''preferred_slots'' = Some (Some s)"
  by (simp_all add: mkdict_def intake_header_def)

lemma split_prefs_Nil [simp]: "split_prefs [] = []"
  by (simp add: split_prefs_def strip_def)

lemma strip_Nil [simp]: "strip [] = []"
  by (simp add: strip_def)

lemma process_row_present:
  assumes "row ''name'' = Some (Some n)" "row ''email'' = Some (Some e)"
    and "row ''preferred_slots'' = Some (Some slots)" "strip slots \<noteq> []"
  shows "process_row L row st =
     (let r = try_prefs L (strip n) (strip e) (split_prefs (strip slots)) st
      in if raised (snd r) \<noteq> None then snd r
         else if \<not> fst r then py_print (MsgNoFreeSlot (strip n)) (snd r)
         else snd r)"
  using assms by (simp add: process_row_def getitem_strip_def get_strip_def)

lemma process_row_no_slots:
  assumes "row ''name'' = Some (Some n)" "row ''email'' = Some (Some e)"
    and "row ''preferred_slots'' = None \<or> (\<exists>slots. row ''preferred_slots'' = Some (Some slots) \<and> strip slots = [])"
  shows "process_row L row st = py_print (MsgNoPreferredSlots (strip n)) st"
  using assms by (auto simp: process_row_def getitem_strip_def get_strip_def)

lemma try_prefs_all_invalid:
  "\<forall>p \<in> set prefs. fromisoformat L p = None \<Longrightarrow>
   try_prefs L name email prefs st
     = (False, st\<lparr>printed := printed st @ map MsgInvalidDatetime prefs\<rparr>)"
  by (induction prefs arbitrary: st) (simp_all add: py_print_def)

lemma try_prefs_single_free:
  assumes "fromisoformat L p = Some d" "0 \<le> d + SLOT" "d + SLOT \<le> DATETIME_MAX"
    and "\<not> slot_overlaps d (d + SLOT) (bookings st)"
    and "book_slot L name email d (d + SLOT) st = Inr st'"
  shows "try_prefs L name email (p # ps) st = (True, st')"
  using assms by (simp add: add_timedelta_representable)

lemma try_prefs_single_taken:
  assumes "fromisoformat L p = Some d" "0 \<le> d + SLOT" "d + SLOT \<le> DATETIME_MAX"
    and "slot_overlaps d (d + SLOT) (bookings st)"
  shows "try_prefs L name email [p] st = (False, st)"
  using assms by (simp add: add_timedelta_representable)

lemma self_overlap: "slot_overlaps d (d + SLOT) (bs @ [(d, d + SLOT)])"
  by (simp add: slot_overlaps_set SLOT_value)

text \<open>A row whose candidates are all taken changes neither the committed set nor a file.\<close>

lemma try_prefs_all_taken:
  assumes "\<forall>c \<in> set (candidate_intervals L prefs). slot_overlaps (fst c) (snd c) (bookings st)"
  shows "\<not> fst (try_prefs L name email prefs st)"
proof
  assume "fst (try_prefs L name email prefs st)"
  from try_prefs_booked [OF this] obtain s where
    "(s, s + SLOT) \<in> set (candidate_intervals L prefs)"
    "\<not> slot_overlaps s (s + SLOT) (bookings st)"
    by blast
  with assms show False by auto
qed

lemma process_row_covered:
  assumes "covered L row (bookings st)"
  shows "bookings (process_row L row st) = bookings st
     \<and> trace (process_row L row st) = trace st
     \<and> existing_csv (process_row L row st) = existing_csv st"
proof (cases "\<exists>name email raw_prefs. getitem_strip row ''name'' = Inr name
        \<and> getitem_strip row ''email'' = Inr email
        \<and> get_strip row ''preferred_slots'' = Inr raw_prefs \<and> raw_prefs \<noteq> []")
  case True
  then obtain name email raw_prefs where nm: "getitem_strip row ''name'' = Inr name"
    and em: "getitem_strip row ''email'' = Inr email"
    and sl: "get_strip row ''preferred_slots'' = Inr raw_prefs" and ne: "raw_prefs \<noteq> []"
    by blast
  let ?r = "try_prefs L name email (split_prefs raw_prefs) st"
  from assms sl have "\<forall>c \<in> set (candidate_intervals L (split_prefs raw_prefs)).
      slot_overlaps (fst c) (snd c) (bookings st)"
    by (simp add: covered_def prefs_of_def)
  from try_prefs_not_booked [OF try_prefs_all_taken [OF this, of name email]]
  have same: "bookings (snd ?r) = bookings st" "trace (snd ?r) = trace st"
    "existing_csv (snd ?r) = existing_csv st"
    by simp_all
  have "process_row L row st = snd ?r
      \<or> process_row L row st = py_print (MsgNoFreeSlot name) (snd ?r)"
    using nm em sl ne by (simp add: process_row_def Let_def)
  with same show ?thesis by auto
next
  case False
  then show ?thesis
    by (auto simp: process_row_def split: sum.splits)
qed

text \<open>A row for which the selector returns a candidate whose invite can be written.\<close>

lemma select_in_set: "select cands committed = Some c \<Longrightarrow> c \<in> set cands"
  by (induction cands) (auto split: if_splits)

lemma process_row_selected:
  assumes nm: "row ''name'' = Some (Some n)" and em: "row ''email'' = Some (Some e)"
    and sl: "row ''preferred_slots'' = Some (Some slots)"
    and rp: "representable (candidate_intervals L (split_prefs (strip slots)))"
    and sel: "select (candidate_intervals L (split_prefs (strip slots))) (bookings st) = Some c"
    and w: "writable (invite_name L (strip n) (fst c))"
    and ok: "raised st = None"
  shows "\<exists>pre. book_slot L (strip n) (strip e) (fst c) (snd c) pre = Inr (process_row L row st)
     \<and> snd c = fst c + SLOT
     \<and> bookings pre = bookings st \<and> existing_csv pre = existing_csv st
     \<and> out_files pre = out_files st \<and> raised pre = None"
proof -
  let ?prefs = "split_prefs (strip slots)"
  let ?r = "try_prefs L (strip n) (strip e) ?prefs st"
  have ne: "strip slots \<noteq> []"
    using sel by auto
  note T = try_prefs_select [OF rp, of "strip n" "strip e" st]
  from T sel w have booked: "fst ?r" by auto
  from T sel w ok have nr: "raised (snd ?r) = None" by auto
  from T sel w have bk: "bookings (snd ?r) = bookings st @ [c]" by auto
  have pr: "process_row L row st = snd ?r"
    using booked nr by (simp add: process_row_present [OF nm em sl ne] Let_def)
  from try_prefs_booked [OF booked] obtain s pre where
    b: "book_slot L (strip n) (strip e) s (s + SLOT) pre = Inr (snd ?r)"
    and p: "bookings pre = bookings st" "existing_csv pre = existing_csv st"
       "out_files pre = out_files st" "raised pre = raised st"
    by blast
  from book_slot_fields(1) [OF b] p bk have c: "c = (s, s + SLOT)" by simp
  with b pr p ok show ?thesis by auto
qed

text \<open>
  Once a row is scheduled, its interval is in the committed set of every state that the
  rows after it are processed in.
\<close>

lemma process_rows_keeps:
  "\<exists>more. bookings (process_rows L rows st) = bookings st @ more"
  using process_rows_grows [of st L rows] by (auto simp: grows_by_def)

lemma scheduled_joins:
  assumes nm: "row ''name'' = Some (Some n)" and em: "row ''email'' = Some (Some e)"
    and sl: "row ''preferred_slots'' = Some (Some slots)"
    and rp: "representable (candidate_intervals L (split_prefs (strip slots)))"
    and sel: "select (candidate_intervals L (split_prefs (strip slots))) (bookings st) = Some c"
    and w: "writable (invite_name L (strip n) (fst c))"
    and ok: "raised st = None"
  shows "bookings (process_row L row st) = bookings st @ [c]
    \<and> raised (process_row L row st) = None
    \<and> process_rows L (row # rows) st = process_rows L rows (process_row L row st)
    \<and> (\<forall>later. \<exists>more.
          bookings (process_rows L later (process_row L row st)) = bookings st @ [c] @ more)"
proof -
  from process_row_selected [OF nm em sl rp sel w ok] obtain pre where
    b: "book_slot L (strip n) (strip e) (fst c) (snd c) pre = Inr (process_row L row st)"
    and p: "bookings pre = bookings st" "raised pre = None"
    by blast
  from book_slot_fields(1,2) [OF b] p
  have bk: "bookings (process_row L row st) = bookings st @ [c]"
    and nr: "raised (process_row L row st) = None"
    by simp_all
  have "\<exists>more. bookings (process_rows L later (process_row L row st)) = bookings st @ [c] @ more"
    for later
    using process_rows_keeps [of L later "process_row L row st"] bk by simp
  with bk nr show ?thesis by (simp add: Let_def)
qed

lemma later_conflict:
  assumes "c \<in> set (bookings st')"
    and "\<forall>c' \<in> set (candidate_intervals L (prefs_of row')). overlap c' c"
  shows "bookings (process_row L row' st') = bookings st'
    \<and> trace (process_row L row' st') = trace st'
    \<and> existing_csv (process_row L row' st') = existing_csv st'"
proof -
  from assms have "covered L row' (bookings st')"
    by (auto simp: covered_def slot_overlaps_overlap)
  from process_row_covered [OF this] show ?thesis .
qed

lemma two_requests_one_slot:
  assumes sp: "split_prefs (strip slots) = [p]"
    and pd: "fromisoformat L p = Some d"
    and rg: "0 \<le> d + SLOT" "d + SLOT \<le> DATETIME_MAX"
    and w: "writable (invite_name L (strip n1) d)"
    and ex: "read_existing_bookings L existing = Inr []"
  shows "bookings (main L (Some [intake_header, [n1, e1, slots], [n2, e2, slots]]) existing)
           = [(d, d + SLOT)]
    \<and> printed (main L (Some [intake_header, [n1, e1, slots], [n2, e2, slots]]) existing)
           = [MsgScheduled (strip n1) (isoformat L d) (filename_of L (strip n1) d),
              MsgNoFreeSlot (strip n2),
              MsgSummary 1,
              MsgSummaryLine (strip n1) (strftime L d ''%Y-%m-%d %H:%M'')
                (filename_of L (strip n1) d)]
    \<and> raised (main L (Some [intake_header, [n1, e1, slots], [n2, e2, slots]]) existing) = None"
proof -
  let ?st0 = "(initial_state existing)\<lparr>bookings := []\<rparr>"
  let ?r1 = "mkdict intake_header [n1, e1, slots]"
  let ?r2 = "mkdict intake_header [n2, e2, slots]"
  from book_slot_writable [OF w] obtain st1 where
    b: "book_slot L (strip n1) (strip e1) d (d + SLOT) ?st0 = Inr st1"
    by blast
  note F = book_slot_fields [OF b]
  let ?st2 = "py_print (MsgNoFreeSlot (strip n2)) st1"
  have ne: "strip slots \<noteq> []"
    using sp by auto
  have rows: "DictReader [intake_header, [n1, e1, slots], [n2, e2, slots]] = [?r1, ?r2]"
    by (simp add: DictReader_def)
  have free: "\<not> slot_overlaps d (d + SLOT) (bookings ?st0)"
    by simp
  have r1: "raised st1 = None"
    using F(2) by (simp add: initial_state_def)
  have s1: "process_row L ?r1 ?st0 = st1"
    using try_prefs_single_free [OF pd rg free b] r1
    by (simp add: process_row_present [OF mkdict_intake ne] sp)
  have taken: "slot_overlaps d (d + SLOT) (bookings st1)"
    using self_overlap [of d "[]"] F(1) by simp
  have s2: "process_row L ?r2 st1 = ?st2"
    using try_prefs_single_taken [OF pd rg taken] r1
    by (simp add: process_row_present [OF mkdict_intake ne] sp)
  have run: "process_rows L [?r1, ?r2] ?st0 = ?st2"
    using s1 s2 r1 by (simp add: Let_def)
  have r2: "raised ?st2 = None"
    using r1 by simp
  have m: "main L (Some [intake_header, [n1, e1, slots], [n2, e2, slots]]) existing
             = print_summary ?st2"
    using ex r2 by (simp add: main_def rows run Let_def del: process_rows.simps)
  show ?thesis
    unfolding m using F r1
    by (simp add: print_summary_def initial_state_def)
qed

text \<open>
  Claim C7. First come, first served within one run. When a request is scheduled (the
  selector returns the candidate \<open>c\<close> for its row and the invite can be written), \<open>c\<close> is
  added at the end of the committed set, the run goes on with the rows after it from that
  state, and whatever rows are processed next, the committed set they leave starts with
  the old set followed by \<open>c\<close>: every later request is checked against a set that holds
  \<open>c\<close>. A later request whose candidates all overlap an interval of the committed set is
  not scheduled. Hence, for two requests in one intake file with the same only candidate,
  and a ledger that is empty at the start, the first is scheduled and the second finds no
  free slot: the printed lines are the one of the booking, the one of the failure, and the
  summary of one appointment.
\<close>

theorem first_come_first_served:
  "(row ''name'' = Some (Some n) \<and> row ''email'' = Some (Some e)
      \<and> row ''preferred_slots'' = Some (Some slots)
      \<and> representable (candidate_intervals L (split_prefs (strip slots)))
      \<and> select (candidate_intervals L (split_prefs (strip slots))) (bookings st) = Some c
      \<and> writable (invite_name L (strip n) (fst c)) \<and> raised st = None
     \<longrightarrow> bookings (process_row L row st) = bookings st @ [c]
         \<and> raised (process_row L row st) = None
         \<and> process_rows L (row # rows) st = process_rows L rows (process_row L row st)
         \<and> (\<forall>later. \<exists>more.
               bookings (process_rows L later (process_row L row st)) = bookings st @ [c] @ more))
   \<and> (c \<in> set (bookings st')
        \<and> (\<forall>c' \<in> set (candidate_intervals L (prefs_of row')). overlap c' c)
       \<longrightarrow> bookings (process_row L row' st') = bookings st'
           \<and> trace (process_row L row' st') = trace st')
   \<and> (split_prefs (strip slots2) = [p] \<and> fromisoformat L p = Some d
        \<and> 0 \<le> d + SLOT \<and> d + SLOT \<le> DATETIME_MAX
        \<and> writable (invite_name L (strip n1) d)
        \<and> read_existing_bookings L existing = Inr []
       \<longrightarrow> bookings (main L (Some [intake_header, [n1, e1, slots2], [n2, e2, slots2]]) existing)
             = [(d, d + SLOT)]
           \<and> printed (main L (Some [intake_header, [n1, e1, slots2], [n2, e2, slots2]]) existing)
             = [MsgScheduled (strip n1) (isoformat L d) (filename_of L (strip n1) d),
                MsgNoFreeSlot (strip n2),
                MsgSummary 1,
                MsgSummaryLine (strip n1) (strftime L d ''%Y-%m-%d %H:%M'')
                  (filename_of L (strip n1) d)]
           \<and> raised (main L (Some [intake_header, [n1, e1, slots2], [n2, e2, slots2]]) existing)
             = None)"
proof (intro conjI impI)
  assume a: "row ''name'' = Some (Some n) \<and> row ''email'' = Some (Some e)
      \<and> row ''preferred_slots'' = Some (Some slots)
      \<and> representable (candidate_intervals L (split_prefs (strip slots)))
      \<and> select (candidate_intervals L (split_prefs (strip slots))) (bookings st) = Some c
      \<and> writable (invite_name L (strip n) (fst c)) \<and> raised st = None"
  then have J: "bookings (process_row L row st) = bookings st @ [c]
    \<and> raised (process_row L row st) = None
    \<and> process_rows L (row # rows) st = process_rows L rows (process_row L row st)
    \<and> (\<forall>later. \<exists>more.
          bookings (process_rows L later (process_row L row st)) = bookings st @ [c] @ more)"
    using scheduled_joins [of row n e slots L st c rows] by blast
  from J show "bookings (process_row L row st) = bookings st @ [c]" by blast
  from J show "raised (process_row L row st) = None" by blast
  from J show "process_rows L (row # rows) st = process_rows L rows (process_row L row st)"
    by blast
  from J show "\<forall>later. \<exists>more.
      bookings (process_rows L later (process_row L row st)) = bookings st @ [c] @ more"
    by blast
next
  assume b: "c \<in> set (bookings st')
        \<and> (\<forall>c' \<in> set (candidate_intervals L (prefs_of row')). overlap c' c)"
  then have K: "bookings (process_row L row' st') = bookings st'
    \<and> trace (process_row L row' st') = trace st'
    \<and> existing_csv (process_row L row' st') = existing_csv st'"
    using later_conflict [of c st' L row'] by blast
  from K show "bookings (process_row L row' st') = bookings st'" by blast
  from K show "trace (process_row L row' st') = trace st'" by blast
next
  assume s: "split_prefs (strip slots2) = [p] \<and> fromisoformat L p = Some d
        \<and> 0 \<le> d + SLOT \<and> d + SLOT \<le> DATETIME_MAX
        \<and> writable (invite_name L (strip n1) d)
        \<and> read_existing_bookings L existing = Inr []"
  then have M: "bookings (main L (Some [intake_header, [n1, e1, slots2], [n2, e2, slots2]]) existing)
           = [(d, d + SLOT)]
    \<and> printed (main L (Some [intake_header, [n1, e1, slots2], [n2, e2, slots2]]) existing)
           = [MsgScheduled (strip n1) (isoformat L d) (filename_of L (strip n1) d),
              MsgNoFreeSlot (strip n2),
              MsgSummary 1,
              MsgSummaryLine (strip n1) (strftime L d ''%Y-%m-%d %H:%M'')
                (filename_of L (strip n1) d)]
    \<and> raised (main L (Some [intake_header, [n1, e1, slots2], [n2, e2, slots2]]) existing) = None"
    using two_requests_one_slot [of slots2 p L d n1 existing e1 n2 e2] by blast
  from M show "bookings (main L (Some [intake_header, [n1, e1, slots2], [n2, e2, slots2]]) existing)
           = [(d, d + SLOT)]" by blast
  from M show "printed (main L (Some [intake_header, [n1, e1, slots2], [n2, e2, slots2]]) existing)
           = [MsgScheduled (strip n1) (isoformat L d) (filename_of L (strip n1) d),
              MsgNoFreeSlot (strip n2),
              MsgSummary 1,
              MsgSummaryLine (strip n1) (strftime L d ''%Y-%m-%d %H:%M'')
                (filename_of L (strip n1) d)]" by blast
  from M show "raised (main L (Some [intake_header, [n1, e1, slots2], [n2, e2, slots2]]) existing)
      = None" by blast
qed

theorem first_come_first_served_witness:
  "row_ada_1000 ''name'' = Some (Some ''Ada'') \<and> row_ada_1000 ''email'' = Some (Some ''ada@x'')
   \<and> row_ada_1000 ''preferred_slots'' = Some (Some ''2025-09-01 10:00'')
   \<and> representable (candidate_intervals pylib (split_prefs (strip ''2025-09-01 10:00'')))
   \<and> select (candidate_intervals pylib (split_prefs (strip ''2025-09-01 10:00'')))
         (bookings booked_0900) = Some (t1000, t1000 + SLOT)
   \<and> writable (invite_name pylib (strip ''Ada'') (fst (t1000, t1000 + SLOT)))
   \<and> raised booked_0900 = None
   \<and> bookings (process_row pylib row_ada_1000 booked_0900)
       = bookings booked_0900 @ [(t1000, t1000 + SLOT)]
   \<and> process_rows pylib [row_ada_1000, row_bo_1000] booked_0900
       = process_rows pylib [row_bo_1000] (process_row pylib row_ada_1000 booked_0900)
   \<and> candidate_intervals pylib (prefs_of row_bo_1000) = [(t1000, t1000 + SLOT)]
   \<and> overlap (t1000, t1000 + SLOT) (t1000, t1000 + SLOT)
   \<and> bookings (process_row pylib row_bo_1000 (process_row pylib row_ada_1000 booked_0900))
       = bookings (process_row pylib row_ada_1000 booked_0900)
   \<and> split_prefs (strip ''2025-09-01 09:00'') = [''2025-09-01 09:00'']
   \<and> fromisoformat pylib ''2025-09-01 09:00'' = Some t0900
   \<and> 0 \<le> t0900 + SLOT \<and> t0900 + SLOT \<le> DATETIME_MAX
   \<and> writable (invite_name pylib (strip ''Ada'') t0900)
   \<and> read_existing_bookings pylib None = Inr []
   \<and> bookings (main pylib (Some intake_same_slot) None) = [(t0900, t0900 + SLOT)]
   \<and> printed (main pylib (Some intake_same_slot) None)
       = [MsgScheduled (strip ''Ada'') (isoformat pylib t0900) (filename_of pylib (strip ''Ada'') t0900),
          MsgNoFreeSlot (strip ''Bo''),
          MsgSummary 1,
          MsgSummaryLine (strip ''Ada'') (strftime pylib t0900 ''%Y-%m-%d %H:%M'')
            (filename_of pylib (strip ''Ada'') t0900)]
   \<and> raised (main pylib (Some intake_same_slot) None) = None"
proof -
  have a1: "row_ada_1000 ''name'' = Some (Some ''Ada'')"
    and a2: "row_ada_1000 ''email'' = Some (Some ''ada@x'')"
    and a3: "row_ada_1000 ''preferred_slots'' = Some (Some ''2025-09-01 10:00'')"
    by (simp_all add: row_ada_1000_def mkdict_intake)
  have a4: "representable (candidate_intervals pylib (split_prefs (strip ''2025-09-01 10:00'')))"
    by code_simp
  have a5: "select (candidate_intervals pylib (split_prefs (strip ''2025-09-01 10:00'')))
         (bookings booked_0900) = Some (t1000, t1000 + SLOT)"
    by code_simp
  have a6: "writable (invite_name pylib (strip ''Ada'') (fst (t1000, t1000 + SLOT)))"
    by code_simp
  have a7: "raised booked_0900 = None"
    by (simp add: booked_0900_def initial_state_def)
  have b2: "candidate_intervals pylib (prefs_of row_bo_1000) = [(t1000, t1000 + SLOT)]"
    by code_simp
  have b3: "overlap (t1000, t1000 + SLOT) (t1000, t1000 + SLOT)"
    by (simp add: overlap_def SLOT_value)
  have h1: "split_prefs (strip ''2025-09-01 09:00'') = [''2025-09-01 09:00'']"
    by code_simp
  have h2: "fromisoformat pylib ''2025-09-01 09:00'' = Some t0900"
    by code_simp
  have h3: "0 \<le> t0900 + SLOT" and h4: "t0900 + SLOT \<le> DATETIME_MAX"
    by (simp_all add: t0900_def SLOT_value DATETIME_MAX_def)
  have h5: "writable (invite_name pylib (strip ''Ada'') t0900)"
    by code_simp
  have h6: "read_existing_bookings pylib None = Inr []"
    by (simp add: read_existing_bookings_def)
  note T = first_come_first_served [where row = row_ada_1000 and n = "''Ada''"
      and e = "''ada@x''" and slots = "''2025-09-01 10:00''" and L = pylib
      and st = booked_0900 and c = "(t1000, t1000 + SLOT)" and rows = "[row_bo_1000]"
      and st' = "process_row pylib row_ada_1000 booked_0900" and row' = row_bo_1000
      and ?slots2.0 = "''2025-09-01 09:00''" and p = "''2025-09-01 09:00''" and d = t0900
      and ?n1.0 = "''Ada''" and existing = None and ?e1.0 = "''ada@x''"
      and ?n2.0 = "''Bo''" and ?e2.0 = "''bo@x''"]
  from T a1 a2 a3 a4 a5 a6 a7
  have j1: "bookings (process_row pylib row_ada_1000 booked_0900)
       = bookings booked_0900 @ [(t1000, t1000 + SLOT)]"
    and j2: "process_rows pylib [row_ada_1000, row_bo_1000] booked_0900
       = process_rows pylib [row_bo_1000] (process_row pylib row_ada_1000 booked_0900)"
    by blast+
  from j1 have b1: "(t1000, t1000 + SLOT) \<in> set (bookings (process_row pylib row_ada_1000 booked_0900))"
    by simp
  from b2 b3
  have b4: "\<forall>c' \<in> set (candidate_intervals pylib (prefs_of row_bo_1000)).
      overlap c' (t1000, t1000 + SLOT)"
    by simp
  from T b1 b4
  have k1: "bookings (process_row pylib row_bo_1000 (process_row pylib row_ada_1000 booked_0900))
       = bookings (process_row pylib row_ada_1000 booked_0900)"
    by blast
  from T h1 h2 h3 h4 h5 h6
  have m: "bookings (main pylib (Some [intake_header, [''Ada'', ''ada@x'', ''2025-09-01 09:00''],
             [''Bo'', ''bo@x'', ''2025-09-01 09:00'']]) None) = [(t0900, t0900 + SLOT)]
    \<and> printed (main pylib (Some [intake_header, [''Ada'', ''ada@x'', ''2025-09-01 09:00''],
             [''Bo'', ''bo@x'', ''2025-09-01 09:00'']]) None)
       = [MsgScheduled (strip ''Ada'') (isoformat pylib t0900) (filename_of pylib (strip ''Ada'') t0900),
          MsgNoFreeSlot (strip ''Bo''),
          MsgSummary 1,
          MsgSummaryLine (strip ''Ada'') (strftime pylib t0900 ''%Y-%m-%d %H:%M'')
            (filename_of pylib (strip ''Ada'') t0900)]
    \<and> raised (main pylib (Some [intake_header, [''Ada'', ''ada@x'', ''2025-09-01 09:00''],
             [''Bo'', ''bo@x'', ''2025-09-01 09:00'']]) None) = None"
    by blast
  from a1 a2 a3 a4 a5 a6 a7 j1 j2 b2 b3 k1 h1 h2 h3 h4 h5 h6 m show ?thesis
    unfolding intake_same_slot_def by blast
qed

text \<open>
  Without the hypothesis on the name of the invite file the request is not scheduled: for
  a name with a \<open>/\<close> in it \<open>create_ics\<close> raises, before anything is appended, and the
  run ends there, the requests after it unread.
\<close>

lemma slash_in_name_ends_run:
  "raised (main pylib (Some intake_slash) None) = Some FileNotFoundError
   \<and> bookings (main pylib (Some intake_slash) None) = []
   \<and> existing_csv (main pylib (Some intake_slash) None) = None
   \<and> out_files (main pylib (Some intake_slash) None) = []
   \<and> printed (main pylib (Some intake_slash) None) = []"
  by code_simp

text \<open>
  Claim C10. The script does not check the name of a request. A row whose name is blank
  after trimming, with its email and preferred slots present, every candidate
  representable and one of them free, is booked like any other row: one candidate interval
  joins the committed set, an invite file is written under the name made of the empty
  name, the interval is appended to the bookings file, the last line printed is the one
  of the booking, no exception is raised, and the committed set is the one that the same
  row gives with any other name that invite files can be written under. The hypothesis on
  the names of the invite files is one on \<open>strftime\<close>, whose text stands in them.
\<close>

theorem blank_name_still_booked:
  assumes nm: "row ''name'' = Some (Some n)" and blank: "strip n = []"
    and em: "row ''email'' = Some (Some e)"
    and sl: "row ''preferred_slots'' = Some (Some slots)"
    and rp: "representable (candidate_intervals L (split_prefs (strip slots)))"
    and wr: "\<forall>c \<in> set (candidate_intervals L (split_prefs (strip slots))).
               writable (invite_name L [] (fst c))"
    and fr: "\<exists>c \<in> set (candidate_intervals L (split_prefs (strip slots))).
               \<not> slot_overlaps (fst c) (snd c) (bookings st)"
    and ok: "raised st = None"
  shows "\<exists>s. (s, s + SLOT) \<in> set (candidate_intervals L (split_prefs (strip slots)))
     \<and> bookings (process_row L row st) = bookings st @ [(s, s + SLOT)]
     \<and> (\<exists>doc. out_files (process_row L row st) = (filename_of L [] s, doc) # out_files st)
     \<and> existing_csv (process_row L row st)
         = Some ((case existing_csv st of
                    None \<Rightarrow> writerow [''start'', ''end''] | Some text \<Rightarrow> text)
                 @ writerow [isoformat L s, isoformat L (s + SLOT)])
     \<and> last (printed (process_row L row st)) = MsgScheduled [] (isoformat L s) (filename_of L [] s)
     \<and> raised (process_row L row st) = None
     \<and> (\<forall>n'. (\<forall>c \<in> set (candidate_intervals L (split_prefs (strip slots))).
                  writable (invite_name L (strip n') (fst c)))
             \<longrightarrow> bookings (process_row L (row(''name'' \<mapsto> Some n')) st)
                   = bookings (process_row L row st))"
proof -
  let ?cands = "candidate_intervals L (split_prefs (strip slots))"
  from fr have "select ?cands (bookings st) \<noteq> None"
    by (simp add: select_None_iff)
  then obtain c where sel: "select ?cands (bookings st) = Some c"
    by auto
  from select_in_set [OF sel] have cin: "c \<in> set ?cands" .
  with wr blank have w: "writable (invite_name L (strip n) (fst c))"
    by simp
  from process_row_selected [OF nm em sl rp sel w ok] obtain pre where
    b: "book_slot L (strip n) (strip e) (fst c) (snd c) pre = Inr (process_row L row st)"
    and cs: "snd c = fst c + SLOT"
    and p: "bookings pre = bookings st" "existing_csv pre = existing_csv st"
       "out_files pre = out_files st" "raised pre = None"
    by blast
  note F = book_slot_fields [OF b]
  have other: "bookings (process_row L (row(''name'' \<mapsto> Some n')) st)
                 = bookings (process_row L row st)"
    if w': "\<forall>c \<in> set ?cands. writable (invite_name L (strip n') (fst c))" for n'
  proof -
    from w' cin have wn: "writable (invite_name L (strip n') (fst c))" by simp
    from process_row_selected [of "row(''name'' \<mapsto> Some n')" n' e slots L st c] em sl rp sel wn ok
    obtain pre' where
      b': "book_slot L (strip n') (strip e) (fst c) (snd c) pre'
             = Inr (process_row L (row(''name'' \<mapsto> Some n')) st)"
      and p': "bookings pre' = bookings st"
      by auto
    from book_slot_fields(1) [OF b'] F(1) p p' show ?thesis by simp
  qed
  obtain doc where d: "out_files (process_row L row st)
      = (filename_of L (strip n) (fst c), doc) # out_files pre"
    using book_slot_out_files [OF b] by blast
  have c: "c = (fst c, fst c + SLOT)"
    using cs by (cases c) simp
  show ?thesis
  proof (intro exI [of _ "fst c"] conjI)
    show "(fst c, fst c + SLOT) \<in> set ?cands"
      using cin c by simp
    show "bookings (process_row L row st) = bookings st @ [(fst c, fst c + SLOT)]"
      using F(1) p cs by simp
    show "\<exists>doc. out_files (process_row L row st) = (filename_of L [] (fst c), doc) # out_files st"
      using d p blank by simp
    show "existing_csv (process_row L row st)
         = Some ((case existing_csv st of
                    None \<Rightarrow> writerow [''start'', ''end''] | Some text \<Rightarrow> text)
                 @ writerow [isoformat L (fst c), isoformat L (fst c + SLOT)])"
      using F(4) p cs by simp
    show "last (printed (process_row L row st))
        = MsgScheduled [] (isoformat L (fst c)) (filename_of L [] (fst c))"
      using F(5) blank by simp
    show "raised (process_row L row st) = None"
      using F(2) p by simp
    show "\<forall>n'. (\<forall>c \<in> set ?cands. writable (invite_name L (strip n') (fst c)))
             \<longrightarrow> bookings (process_row L (row(''name'' \<mapsto> Some n')) st)
                   = bookings (process_row L row st)"
      using other by blast
  qed
qed

theorem blank_name_still_booked_witness:
  "row_blank_name ''name'' = Some (Some ''  '') \<and> strip ''  '' = []
   \<and> row_blank_name ''email'' = Some (Some ''x@y'')
   \<and> row_blank_name ''preferred_slots'' = Some (Some ''2025-09-01 09:00'')
   \<and> candidate_intervals pylib (split_prefs (strip ''2025-09-01 09:00'')) = [(t0900, t0900 + SLOT)]
   \<and> representable (candidate_intervals pylib (split_prefs (strip ''2025-09-01 09:00'')))
   \<and> writable (invite_name pylib [] t0900)
   \<and> raised (initial_state None) = None
   \<and> bookings (process_row pylib row_blank_name (initial_state None)) = [(t0900, t0900 + SLOT)]
   \<and> map fst (out_files (process_row pylib row_blank_name (initial_state None)))
       = [''out/invite__20250901T0900.ics'']
   \<and> raised (process_row pylib row_blank_name (initial_state None)) = None"
proof -
  have nm: "row_blank_name ''name'' = Some (Some ''  '')"
    and em: "row_blank_name ''email'' = Some (Some ''x@y'')"
    and sl: "row_blank_name ''preferred_slots'' = Some (Some ''2025-09-01 09:00'')"
    by (simp_all add: row_blank_name_def mkdict_intake)
  have bl: "strip ''  '' = []"
    by code_simp
  have ci: "candidate_intervals pylib (split_prefs (strip ''2025-09-01 09:00''))
              = [(t0900, t0900 + SLOT)]"
    by code_simp
  have rp: "representable (candidate_intervals pylib (split_prefs (strip ''2025-09-01 09:00'')))"
    by code_simp
  have w: "writable (invite_name pylib [] t0900)"
    by code_simp
  have wr: "\<forall>c \<in> set (candidate_intervals pylib (split_prefs (strip ''2025-09-01 09:00''))).
              writable (invite_name pylib [] (fst c))"
    using w by (simp add: ci)
  have b0: "bookings (initial_state None) = []" and o0: "out_files (initial_state None) = []"
    and ok: "raised (initial_state None) = None"
    by (simp_all add: initial_state_def)
  have fr: "\<exists>c \<in> set (candidate_intervals pylib (split_prefs (strip ''2025-09-01 09:00''))).
              \<not> slot_overlaps (fst c) (snd c) (bookings (initial_state None))"
    by (simp add: ci b0)
  from blank_name_still_booked [OF nm bl em sl rp wr fr ok] obtain s doc where
    c: "(s, s + SLOT) \<in> set (candidate_intervals pylib (split_prefs (strip ''2025-09-01 09:00'')))"
    and b: "bookings (process_row pylib row_blank_name (initial_state None))
             = bookings (initial_state None) @ [(s, s + SLOT)]"
    and o: "out_files (process_row pylib row_blank_name (initial_state None))
             = (filename_of pylib [] s, doc) # out_files (initial_state None)"
    and r: "raised (process_row pylib row_blank_name (initial_state None)) = None"
    by blast
  from c ci have s: "s = t0900" by simp
  have f: "filename_of pylib [] t0900 = ''out/invite__20250901T0900.ics''"
    by code_simp
  from b s b0 have b': "bookings (process_row pylib row_blank_name (initial_state None))
      = [(t0900, t0900 + SLOT)]"
    by simp
  from o s f o0 have o': "map fst (out_files (process_row pylib row_blank_name (initial_state None)))
       = [''out/invite__20250901T0900.ics'']"
    by simp
  from b' o' r nm bl em sl ci rp w ok show ?thesis
    by blast
qed

text \<open>
  Claim C6, as the code has it, for a row that has its name and email fields. A candidate
  with a malformed timestamp is skipped, with a line printed about it, and the loop goes
  on with the next candidate. If every candidate of the row is malformed (so also when the
  only one is), the row ends with the line that no free preferred slot was found, which is
  the line of a request whose candidates all conflict; nothing else of the state changes
  and the run goes on with the next row. If the field of the preferred slots is absent
  from the file or blank, the row ends with the line that it has no preferred slots, and
  the run goes on with the next row.
\<close>

theorem malformed_record_handling:
  assumes nm: "row ''name'' = Some (Some n)" and em: "row ''email'' = Some (Some e)"
    and ok: "raised st = None"
  shows "(fromisoformat L p = None \<longrightarrow>
            try_prefs L name email (p # ps) st
              = try_prefs L name email ps (py_print (MsgInvalidDatetime p) st))
    \<and> (row ''preferred_slots'' = Some (Some slots) \<and> strip slots \<noteq> []
         \<and> (\<forall>q \<in> set (split_prefs (strip slots)). fromisoformat L q = None) \<longrightarrow>
          process_rows L (row # rows) st
            = process_rows L rows
                (st\<lparr>printed := printed st @ map MsgInvalidDatetime (split_prefs (strip slots))
                                 @ [MsgNoFreeSlot (strip n)]\<rparr>))
    \<and> (row ''preferred_slots'' = None
         \<or> (\<exists>blank. row ''preferred_slots'' = Some (Some blank) \<and> strip blank = []) \<longrightarrow>
          process_rows L (row # rows) st
            = process_rows L rows (py_print (MsgNoPreferredSlots (strip n)) st))"
proof (intro conjI impI)
  assume "fromisoformat L p = None"
  then show "try_prefs L name email (p # ps) st
              = try_prefs L name email ps (py_print (MsgInvalidDatetime p) st)"
    by simp
next
  assume a: "row ''preferred_slots'' = Some (Some slots) \<and> strip slots \<noteq> []
         \<and> (\<forall>q \<in> set (split_prefs (strip slots)). fromisoformat L q = None)"
  then have t: "try_prefs L (strip n) (strip e) (split_prefs (strip slots)) st
      = (False, st\<lparr>printed := printed st @ map MsgInvalidDatetime (split_prefs (strip slots))\<rparr>)"
    using try_prefs_all_invalid by blast
  have "process_row L row st
      = st\<lparr>printed := printed st @ map MsgInvalidDatetime (split_prefs (strip slots))
                                 @ [MsgNoFreeSlot (strip n)]\<rparr>"
    using a ok by (simp add: process_row_present [OF nm em] t py_print_def)
  with ok show "process_rows L (row # rows) st
            = process_rows L rows
                (st\<lparr>printed := printed st @ map MsgInvalidDatetime (split_prefs (strip slots))
                                 @ [MsgNoFreeSlot (strip n)]\<rparr>)"
    by (simp add: Let_def)
next
  assume "row ''preferred_slots'' = None
         \<or> (\<exists>blank. row ''preferred_slots'' = Some (Some blank) \<and> strip blank = [])"
  from process_row_no_slots [OF nm em this] ok
  show "process_rows L (row # rows) st
            = process_rows L rows (py_print (MsgNoPreferredSlots (strip n)) st)"
    by (simp add: Let_def)
qed

theorem malformed_record_handling_witness:
  "row_malformed ''name'' = Some (Some ''Cy'') \<and> row_malformed ''email'' = Some (Some ''cy@x'')
   \<and> row_malformed ''preferred_slots'' = Some (Some ''tomorrow'')
   \<and> row_no_slots ''name'' = Some (Some ''Dee'') \<and> row_no_slots ''email'' = Some (Some ''dee@x'')
   \<and> row_no_slots ''preferred_slots'' = Some (Some ''  '') \<and> strip ''  '' = []
   \<and> raised (initial_state None) = None
   \<and> split_prefs (strip ''tomorrow'') = [''tomorrow'']
   \<and> fromisoformat pylib ''tomorrow'' = None
   \<and> process_rows pylib (row_malformed # DictReader intake_bo) (initial_state None)
       = process_rows pylib (DictReader intake_bo)
           ((initial_state None)\<lparr>printed := printed (initial_state None)
               @ map MsgInvalidDatetime (split_prefs (strip ''tomorrow''))
               @ [MsgNoFreeSlot (strip ''Cy'')]\<rparr>)
   \<and> process_rows pylib (row_no_slots # DictReader intake_bo) (initial_state None)
       = process_rows pylib (DictReader intake_bo)
           (py_print (MsgNoPreferredSlots (strip ''Dee'')) (initial_state None))"
proof -
  have nm: "row_malformed ''name'' = Some (Some ''Cy'')"
    and em: "row_malformed ''email'' = Some (Some ''cy@x'')"
    and sl: "row_malformed ''preferred_slots'' = Some (Some ''tomorrow'')"
    by (simp_all add: row_malformed_def mkdict_intake)
  have nm': "row_no_slots ''name'' = Some (Some ''Dee'')"
    and em': "row_no_slots ''email'' = Some (Some ''dee@x'')"
    and sl': "row_no_slots ''preferred_slots'' = Some (Some ''  '')"
    by (simp_all add: row_no_slots_def mkdict_intake)
  have bl: "strip ''  '' = []"
    by code_simp
  have sp: "split_prefs (strip ''tomorrow'') = [''tomorrow'']"
    by code_simp
  have st: "strip ''tomorrow'' \<noteq> []"
    by code_simp
  have bad: "fromisoformat pylib ''tomorrow'' = None"
    by code_simp
  have ok: "raised (initial_state None) = None"
    by (simp add: initial_state_def)
  have allbad: "\<forall>q \<in> set (split_prefs (strip ''tomorrow'')). fromisoformat pylib q = None"
    using sp bad by simp
  note A = malformed_record_handling [OF nm em ok, of pylib "''tomorrow''" "''Cy''" "''cy@x''" "[]" "''tomorrow''" "DictReader intake_bo"]
  note B = malformed_record_handling [OF nm' em' ok, of pylib "''tomorrow''" "''Cy''" "''cy@x''" "[]" "''tomorrow''" "DictReader intake_bo"]
  from A sl st allbad have a: "process_rows pylib (row_malformed # DictReader intake_bo) (initial_state None)
       = process_rows pylib (DictReader intake_bo)
           ((initial_state None)\<lparr>printed := printed (initial_state None)
               @ map MsgInvalidDatetime (split_prefs (strip ''tomorrow''))
               @ [MsgNoFreeSlot (strip ''Cy'')]\<rparr>)"
    by blast
  from B sl' bl have b: "process_rows pylib (row_no_slots # DictReader intake_bo) (initial_state None)
       = process_rows pylib (DictReader intake_bo)
           (py_print (MsgNoPreferredSlots (strip ''Dee'')) (initial_state None))"
    by blast
  from nm em sl nm' em' sl' bl ok sp bad a b show ?thesis
    by blast
qed

text \<open>
  Claim C6 as stated fails: a record that lacks its email field ends the whole run with
  an exception. Nothing is printed and nothing is booked, not even for the request after
  it, which is booked when the file holds it alone.
\<close>

theorem run_aborted_counterexample:
  "raised (main pylib (Some intake_short_row) None) = Some AttributeError
   \<and> printed (main pylib (Some intake_short_row) None) = []
   \<and> bookings (main pylib (Some intake_short_row) None) = []
   \<and> bookings (main pylib (Some intake_bo) None) = [(t0900, t0900 + SLOT)]"
  by code_simp

section \<open>Reading CSV text\<close>

text \<open>
  The parser raises only when a character other than a line end follows a line end
  within one line. The lines of a file are not so, and so reading the records of a file
  never fails; it makes no difference then that the script reads them one at a time.
\<close>

lemma parse_char_plain:
  "rd_state r \<noteq> EAT_CRNL \<Longrightarrow> c \<noteq> CR \<Longrightarrow> c \<noteq> LF
   \<Longrightarrow> \<exists>r'. parse_process_char r (Some c) = Inr r' \<and> rd_state r' \<noteq> EAT_CRNL"
  by (cases "rd_state r")
    (auto simp: is_newline_def start_field_def after_line_end_def parse_save_field_def
      parse_add_char_def)

lemma parse_char_newline:
  "c = CR \<or> c = LF \<Longrightarrow> \<exists>r'. parse_process_char r (Some c) = Inr r'"
  by (cases "rd_state r") (auto simp: is_newline_def)

lemma parse_end_of_line:
  "\<exists>r'. parse_process_char r None = Inr r' \<and> rd_state r' \<noteq> EAT_CRNL"
  by (cases "rd_state r")
    (auto simp: is_newline_def start_field_def after_line_end_def parse_save_field_def)

lemma feed_newlines:
  "\<forall>c \<in> set l. c = CR \<or> c = LF \<Longrightarrow> \<exists>r'. feed r l = Inr r'"
proof (induction l arbitrary: r)
  case Nil
  then show ?case by simp
next
  case (Cons c l)
  from Cons.prems have "c = CR \<or> c = LF" by simp
  from parse_char_newline [OF this] obtain r1 where "parse_process_char r (Some c) = Inr r1"
    by blast
  moreover from Cons.IH [of r1] Cons.prems obtain r' where "feed r1 l = Inr r'"
    by auto
  ultimately show ?case by simp
qed

lemma feed_line_shape:
  "rd_state r \<noteq> EAT_CRNL \<Longrightarrow> line_shape l \<Longrightarrow> \<exists>r'. feed r l = Inr r'"
proof (induction l arbitrary: r)
  case Nil
  then show ?case by simp
next
  case (Cons c l)
  show ?case
  proof (cases "c = CR \<or> c = LF")
    case True
    with Cons.prems(2) have "\<forall>x \<in> set (c # l). x = CR \<or> x = LF"
      by (auto simp: line_shape_def)
    from feed_newlines [OF this] show ?thesis .
  next
    case False
    with parse_char_plain [OF Cons.prems(1), of c] obtain r1 where
      p: "parse_process_char r (Some c) = Inr r1" and s: "rd_state r1 \<noteq> EAT_CRNL"
      by auto
    from False Cons.prems(2) have "line_shape l"
      by (simp add: line_shape_def)
    from Cons.IH [OF s this] p show ?thesis by simp
  qed
qed

lemma feed_line_total:
  "rd_state r \<noteq> EAT_CRNL \<Longrightarrow> line_shape l
   \<Longrightarrow> \<exists>r'. feed_line r l = Inr r' \<and> rd_state r' \<noteq> EAT_CRNL"
  using feed_line_shape [of r l] parse_end_of_line
  by (auto simp: feed_line_def)

lemma read_records_total:
  "\<forall>l \<in> set ls. line_shape l \<Longrightarrow> rd_state r \<noteq> EAT_CRNL
   \<Longrightarrow> \<exists>recs. read_records r ls = Inr recs"
proof (induction ls arbitrary: r)
  case Nil
  then show ?case by simp
next
  case (Cons l ls)
  from Cons.prems have "line_shape l" by simp
  from feed_line_total [OF Cons.prems(2) this] obtain r1 where
    f: "feed_line r l = Inr r1" and s: "rd_state r1 \<noteq> EAT_CRNL"
    by blast
  from Cons.prems have rest: "\<forall>l \<in> set ls. line_shape l" by simp
  have s0: "rd_state parse_reset \<noteq> EAT_CRNL"
    by (simp add: parse_reset_def)
  from Cons.IH [OF rest s0] obtain recs0 where a: "read_records parse_reset ls = Inr recs0"
    by blast
  from Cons.IH [OF rest s] obtain recs1 where b: "read_records r1 ls = Inr recs1"
    by blast
  from f a b show ?case by simp
qed

lemma line_shape_snoc:
  assumes "\<forall>c \<in> set cur. c \<noteq> CR \<and> c \<noteq> LF"
    and "(\<forall>c \<in> set rest. c = CR \<or> c = LF) \<or> length rest \<le> 1"
  shows "line_shape (cur @ rest)"
proof -
  from assms(1)
  have d: "dropWhile (\<lambda>c. c \<noteq> CR \<and> c \<noteq> LF) (cur @ rest)
             = dropWhile (\<lambda>c. c \<noteq> CR \<and> c \<noteq> LF) rest"
    by (simp add: dropWhile_append2)
  from assms(2) show ?thesis
  proof
    assume "\<forall>c \<in> set rest. c = CR \<or> c = LF"
    then show ?thesis
      unfolding line_shape_def d using set_dropWhileD by fastforce
  next
    assume "length rest \<le> 1"
    then show ?thesis
      unfolding line_shape_def d by (cases rest) auto
  qed
qed

lemma file_lines_shape:
  "\<forall>c \<in> set cur. c \<noteq> CR \<and> c \<noteq> LF \<Longrightarrow> \<forall>l \<in> set (file_lines cur t). line_shape l"
proof (induction cur t rule: file_lines.induct)
  case (1 cur)
  then show ?case using line_shape_snoc [of cur "[]"] by simp
next
  case (2 cur c)
  then show ?case using line_shape_snoc [of cur "[c]"] by simp
next
  case (3 cur c d cs)
  have e: "\<forall>c \<in> set ([]::string). c \<noteq> CR \<and> c \<noteq> LF" by simp
  show ?case
  proof (cases "c = CR \<and> d = LF")
    case True
    then have eq: "file_lines cur (c # d # cs) = (cur @ [c, d]) # file_lines [] cs"
      by simp
    from True "3.prems" have "line_shape (cur @ [c, d])"
      using line_shape_snoc [of cur "[c, d]"] by simp
    with "3.IH"(1) [OF True e] show ?thesis
      unfolding eq by simp
  next
    case False
    show ?thesis
    proof (cases "c = CR \<or> c = LF")
      case True
      with False have eq: "file_lines cur (c # d # cs) = (cur @ [c]) # file_lines [] (d # cs)"
        by auto
      from "3.prems" have "line_shape (cur @ [c])"
        using line_shape_snoc [of cur "[c]"] by simp
      with "3.IH"(2) [OF False True e] show ?thesis
        unfolding eq by simp
    next
      case nl: False
      with False have eq: "file_lines cur (c # d # cs) = file_lines (cur @ [c]) (d # cs)"
        by auto
      from nl "3.prems" have "\<forall>x \<in> set (cur @ [c]). x \<noteq> CR \<and> x \<noteq> LF" by simp
      from "3.IH"(3) [OF False nl this] show ?thesis
        unfolding eq .
    qed
  qed
qed

lemma csv_reader_total: "\<exists>recs. csv_reader t = Inr recs"
  using read_records_total [OF file_lines_shape [of "[]" t], of parse_reset]
  by (simp add: csv_reader_def parse_reset_def)

section \<open>Loading the bookings file\<close>

lemma read_rows_order:
  "read_rows L rs acc = Inr bs \<Longrightarrow>
   take (length acc) bs = acc
   \<and> map (\<lambda>r. (parse_field L r ''start'', parse_field L r ''end'')) rs
       = map (\<lambda>iv. (Inr (fst iv), Inr (snd iv))) (drop (length acc) bs)"
proof (induction rs arbitrary: acc)
  case Nil
  then show ?case by simp
next
  case (Cons r rs)
  from Cons.prems obtain s e where
    p: "parse_field L r ''start'' = Inr s" "parse_field L r ''end'' = Inr e"
    and rest: "read_rows L rs (acc @ [(s, e)]) = Inr bs"
    by (auto split: sum.splits)
  from Cons.IH [OF rest] have t: "take (Suc (length acc)) bs = acc @ [(s, e)]"
    and m: "map (\<lambda>r. (parse_field L r ''start'', parse_field L r ''end'')) rs
       = map (\<lambda>iv. (Inr (fst iv), Inr (snd iv))) (drop (Suc (length acc)) bs)"
    by simp_all
  from t have len: "length acc < length bs"
    by (metis Suc_le_lessD length_append_singleton length_take min.cobounded1)
  from t have t1: "take (length acc) bs = acc"
    by (metis append1_eq_conv len take_Suc_conv_app_nth)
  from t len have n: "bs ! length acc = (s, e)"
    by (metis append1_eq_conv take_Suc_conv_app_nth)
  from len have "drop (length acc) bs = bs ! length acc # drop (Suc (length acc)) bs"
    by (simp add: Cons_nth_drop_Suc)
  with n m p t1 show ?case by simp
qed

text \<open>
  What loading gives when it succeeds: nothing when there is no file, and else the start
  and end read from every record of the file, in the order of the file.
\<close>

lemma load_in_file_order:
  "read_existing_bookings L None = Inr []
   \<and> (read_existing_bookings L (Some text) = Inr bs \<longrightarrow>
        (\<exists>recs. csv_reader text = Inr recs
           \<and> map (\<lambda>r. (parse_field L r ''start'', parse_field L r ''end'')) (DictReader recs)
               = map (\<lambda>iv. (Inr (fst iv), Inr (snd iv))) bs))"
proof -
  have "\<exists>recs. csv_reader text = Inr recs
           \<and> map (\<lambda>r. (parse_field L r ''start'', parse_field L r ''end'')) (DictReader recs)
               = map (\<lambda>iv. (Inr (fst iv), Inr (snd iv))) bs"
    if "read_existing_bookings L (Some text) = Inr bs"
  proof -
    from that obtain recs where r: "csv_reader text = Inr recs"
      and l: "read_rows L (DictReader recs) [] = Inr bs"
      by (auto simp: read_existing_bookings_def split: sum.splits)
    from read_rows_order [OF l] r show ?thesis by simp
  qed
  then show ?thesis by (simp add: read_existing_bookings_def)
qed

text \<open>
  Claim C8 says that loading returns every interval committed before, in the order of
  recording, when the bookings file exists and can be read. With no file the script
  writes the header before the first record, and the next load returns the booking. With
  a file that exists and is empty it writes no header: the first run books 09:00 and
  leaves the record alone in the file; the second run reads that record as the header,
  loads no interval, and books 09:00 again; the file then holds the record twice, and the
  third load fails on the missing column \<open>start\<close>.
\<close>

theorem empty_store_loses_booking:
  "read_existing_bookings pylib None = Inr []
   \<and> existing_csv (main pylib (Some intake_bo) None) = Some store_0900
   \<and> read_existing_bookings pylib (Some store_0900) = Inr [(t0900, t0900 + SLOT)]
   \<and> read_existing_bookings pylib (Some []) = Inr []
   \<and> bookings (main pylib (Some intake_bo) (Some [])) = [(t0900, t0900 + SLOT)]
   \<and> existing_csv (main pylib (Some intake_bo) (Some [])) = Some store_no_header
   \<and> read_existing_bookings pylib (Some store_no_header) = Inr []
   \<and> bookings (main pylib (Some intake_bo) (Some store_no_header)) = [(t0900, t0900 + SLOT)]
   \<and> existing_csv (main pylib (Some intake_bo) (Some store_no_header)) = Some store_twice
   \<and> read_existing_bookings pylib (Some store_twice) = Inl KeyError"
  by code_simp

text \<open>
  The same call loses a booking on a file whose last line has no end, as a file written
  by hand may be: the record is appended to the text of that line, and the next load
  fails on the end of the booking before it.
\<close>

lemma no_final_newline_glues:
  "read_existing_bookings pylib (Some store_no_newline) = Inr [(t0800, t0800 + SLOT)]
   \<and> bookings (main pylib (Some intake_bo) (Some store_no_newline))
       = [(t0800, t0800 + SLOT), (t0900, t0900 + SLOT)]
   \<and> existing_csv (main pylib (Some intake_bo) (Some store_no_newline))
       = Some (store_no_newline @ store_no_header)
   \<and> csv_reader (store_no_newline @ store_no_header)
       = Inr [[''start'', ''end''],
              [''2025-09-01T08:00:00'', ''2025-09-01T08:30:002025-09-01T09:00:00'',
               ''2025-09-01T09:30:00'']]
   \<and> read_existing_bookings pylib (Some (store_no_newline @ store_no_header)) = Inl ValueError"
  by code_simp

section \<open>Running the script twice\<close>

text \<open>
  Claim C3 says that a second run on the same intake file and the bookings file left by
  the first run appends no booking for a request scheduled in the first run, so that the
  committed set has the same number of intervals after two runs as after one. The script
  does otherwise on a request with two preferred slots: the first run books the first
  slot, and the second run, finding it taken, books the second slot for the same request.
\<close>

theorem rerun_books_again:
  "bookings (main pylib (Some intake_two_slots) None) = [(t0900, t0900 + SLOT)]
   \<and> existing_csv (main pylib (Some intake_two_slots) None) = Some store_0900
   \<and> bookings (main pylib (Some intake_two_slots)
        (existing_csv (main pylib (Some intake_two_slots) None)))
       = [(t0900, t0900 + SLOT), (t1000, t1000 + SLOT)]"
  by code_simp

text \<open>
  What holds of a second run: when every request lists at most one preferred slot, the
  first run ends without an exception, and the bookings file it leaves loads as its
  committed set, the second run on the same intake file and that bookings file books
  nothing and leaves the bookings file as it is.
\<close>

text \<open>A candidate that overlaps the committed set still does after the set has grown.\<close>

lemma slot_overlaps_grows:
  "grows_by st st' tr \<Longrightarrow> slot_overlaps s e (bookings st) \<Longrightarrow> slot_overlaps s e (bookings st')"
  by (auto simp: grows_by_def slot_overlaps_set)

lemma covered_grows: "grows_by st st' tr \<Longrightarrow> covered L row (bookings st) \<Longrightarrow> covered L row (bookings st')"
  using slot_overlaps_grows by (auto simp: covered_def)

lemma candidate_intervals_single:
  "candidate_intervals L [p] = (case fromisoformat L p of None \<Rightarrow> [] | Some d \<Rightarrow> [(d, d + SLOT)])"
  by (simp add: candidate_intervals_Cons split: option.splits)

text \<open>After a row with at most one candidate is processed, its candidate is taken.\<close>

lemma process_row_covers:
  assumes one: "length (prefs_of row) \<le> 1"
    and ok: "raised (process_row L row st) = None"
  shows "covered L row (bookings (process_row L row st))"
proof (cases "prefs_of row")
  case Nil
  then show ?thesis by (simp add: covered_def)
next
  case (Cons p ps)
  with one have pr: "prefs_of row = [p]" by simp
  then obtain raw_prefs where sl: "get_strip row ''preferred_slots'' = Inr raw_prefs"
    and sp: "split_prefs raw_prefs = [p]"
    by (auto simp: prefs_of_def split: sum.splits)
  from sp have ne: "raw_prefs \<noteq> []" by auto
  show ?thesis
  proof (cases "fromisoformat L p")
    case None
    with pr show ?thesis by (simp add: covered_def candidate_intervals_single)
  next
    case (Some d)
    from ok obtain name email where nm: "getitem_strip row ''name'' = Inr name"
      and em: "getitem_strip row ''email'' = Inr email"
      by (auto simp: process_row_def split: sum.splits)
    let ?r = "try_prefs L name email [p] st"
    have pr': "process_row L row st
        = (if raised (snd ?r) \<noteq> None then snd ?r
           else if \<not> fst ?r then py_print (MsgNoFreeSlot name) (snd ?r) else snd ?r)"
      using nm em sl sp ne by (simp add: process_row_def Let_def)
    show ?thesis
    proof (cases "add_timedelta d (timedelta_minutes DURATION_MINUTES)")
      case (Inl e)
      with Some pr' ok show ?thesis by simp
    next
      case (Inr end_dt)
      then have e: "end_dt = d + SLOT"
        using add_timedelta_Inr [of d "timedelta_minutes DURATION_MINUTES" end_dt]
        by (simp add: slot_is_SLOT)
      show ?thesis
      proof (cases "slot_overlaps d (d + SLOT) (bookings st)")
        case True
        with Some Inr e pr' pr show ?thesis
          by (simp add: covered_def candidate_intervals_single)
      next
        case False
        show ?thesis
        proof (cases "book_slot L name email d (d + SLOT) st")
          case (Inl err)
          with Some Inr e False pr' ok show ?thesis by simp
        next
          case booked: (Inr st')
          with Some Inr e False pr' have "process_row L row st = st'"
            using book_slot_fields(2) [OF booked] by (simp split: if_splits)
          with book_slot_fields(1) [OF booked] pr Some show ?thesis
            using self_overlap [of d "bookings st"]
            by (simp add: covered_def candidate_intervals_single)
        qed
      qed
    qed
  qed
qed

lemma process_rows_cover:
  "\<forall>row \<in> set rows. length (prefs_of row) \<le> 1 \<Longrightarrow> raised (process_rows L rows st) = None
   \<Longrightarrow> \<forall>row \<in> set rows. covered L row (bookings (process_rows L rows st))"
proof (induction rows arbitrary: st)
  case Nil
  then show ?case by simp
next
  case (Cons row rows)
  let ?st1 = "process_row L row st"
  from Cons.prems(2) have ok1: "raised ?st1 = None"
    by (auto simp: Let_def split: if_splits)
  then have fin: "process_rows L (row # rows) st = process_rows L rows ?st1"
    by (simp add: Let_def)
  from Cons.prems(1) have one: "length (prefs_of row) \<le> 1"
    and ones: "\<forall>row \<in> set rows. length (prefs_of row) \<le> 1"
    by simp_all
  from Cons.prems(2) fin have ok2: "raised (process_rows L rows ?st1) = None" by simp
  obtain u where g: "grows_by ?st1 (process_rows L rows ?st1) u"
    using process_rows_grows by blast
  from covered_grows [OF g process_row_covers [OF one ok1]]
  have "covered L row (bookings (process_rows L rows ?st1))" .
  with Cons.IH [OF ones ok2] fin show ?case by simp
qed

lemma process_rows_covered:
  "\<forall>row \<in> set rows. covered L row (bookings st) \<Longrightarrow>
   bookings (process_rows L rows st) = bookings st
   \<and> trace (process_rows L rows st) = trace st
   \<and> existing_csv (process_rows L rows st) = existing_csv st"
proof (induction rows arbitrary: st)
  case Nil
  then show ?case by simp
next
  case (Cons row rows)
  let ?st1 = "process_row L row st"
  from Cons.prems have c: "covered L row (bookings st)" by simp
  note P = process_row_covered [OF c]
  from Cons.prems P have "\<forall>row \<in> set rows. covered L row (bookings ?st1)" by simp
  from Cons.IH [OF this] P show ?case by (simp add: Let_def)
qed

lemma print_summary_fields [simp]:
  "bookings (print_summary st) = bookings st"
  "trace (print_summary st) = trace st"
  "existing_csv (print_summary st) = existing_csv st"
  "raised (print_summary st) = raised st"
  by (simp_all add: print_summary_def)

lemma rerun_single_candidate:
  assumes one: "\<forall>row \<in> set (DictReader recs). length (prefs_of row) \<le> 1"
    and ok: "raised (main L (Some recs) existing) = None"
    and rb: "read_existing_bookings L (existing_csv (main L (Some recs) existing))
               = Inr (bookings (main L (Some recs) existing))"
  shows "bookings (main L (Some recs) (existing_csv (main L (Some recs) existing)))
           = bookings (main L (Some recs) existing)
    \<and> trace (main L (Some recs) (existing_csv (main L (Some recs) existing))) = []
    \<and> existing_csv (main L (Some recs) (existing_csv (main L (Some recs) existing)))
           = existing_csv (main L (Some recs) existing)"
proof -
  let ?rows = "DictReader recs"
  from ok obtain bs where rd: "read_existing_bookings L existing = Inr bs"
    by (auto simp: main_def split: sum.splits)
  let ?st0 = "(initial_state existing)\<lparr>bookings := bs\<rparr>"
  let ?P1 = "process_rows L ?rows ?st0"
  from ok rd have ok1: "raised ?P1 = None"
    by (auto simp: main_def Let_def split: if_splits)
  with rd have R1: "main L (Some recs) existing = print_summary ?P1"
    by (simp add: main_def Let_def)
  from rb R1 have rd2: "read_existing_bookings L (existing_csv ?P1) = Inr (bookings ?P1)"
    by simp
  let ?st0' = "(initial_state (existing_csv ?P1))\<lparr>bookings := bookings ?P1\<rparr>"
  let ?P2 = "process_rows L ?rows ?st0'"
  from process_rows_cover [OF one ok1]
  have "\<forall>row \<in> set ?rows. covered L row (bookings ?st0')" by simp
  note Q = process_rows_covered [OF this]
  have R2: "main L (Some recs) (existing_csv ?P1)
      = (if raised ?P2 \<noteq> None then ?P2 else print_summary ?P2)"
    using rd2 by (simp add: main_def Let_def)
  from Q have "bookings ?P2 = bookings ?P1" "trace ?P2 = []" "existing_csv ?P2 = existing_csv ?P1"
    by (simp_all add: initial_state_def)
  with R1 R2 show ?thesis by simp
qed

end
